theory Spec2Isabelle
  imports Main
begin

section \<open>Time values of the JavaScript \<open>Date\<close> object\<close>

text \<open>
  The picker stores and reads dates through JavaScript \<open>Date\<close> objects. A \<open>Date\<close>
  holds one number, its time value: milliseconds since 1970-01-01T00:00:00Z, or \<open>NaN\<close>
  for an invalid date. The component's helpers \<open>dateToISOString\<close>, \<open>parseDateFromISO\<close>
  and \<open>parseDateString\<close> are written in terms of \<open>Date.UTC\<close>, \<open>toISOString\<close> and
  the local getters, so the arithmetic ECMAScript prescribes for them (ECMA-262, "Date
  Objects") is modelled first: \<open>Day\<close>, \<open>DaysInYear\<close>, \<open>DayFromYear\<close>,
  \<open>YearFromTime\<close>, \<open>MonthFromTime\<close>, \<open>DateFromTime\<close>, \<open>MakeDay\<close>, \<open>MakeTime\<close>,
  \<open>MakeDate\<close> and \<open>TimeClip\<close>. Time values are mathematical integers here; every
  number the component handles is an integer far below \<open>2^53\<close>, where doubles are exact.
\<close>

definition msPerDay :: int where
  "msPerDay = 86400000"

definition Day :: "int \<Rightarrow> int" where
  "Day t = t div msPerDay"

definition TimeWithinDay :: "int \<Rightarrow> int" where
  "TimeWithinDay t = t mod msPerDay"

definition DaysInYear :: "int \<Rightarrow> int" where
  "DaysInYear y =
     (if y mod 4 \<noteq> 0 then 365
      else if y mod 100 \<noteq> 0 then 366
      else if y mod 400 \<noteq> 0 then 365
      else 366)"

definition DayFromYear :: "int \<Rightarrow> int" where
  "DayFromYear y =
     365 * (y - 1970) + (y - 1969) div 4 - (y - 1901) div 100 + (y - 1601) div 400"

subsection \<open>Consecutive years\<close>

text \<open>
  The day number of 1 January grows by the length of the year. The three floor divisions
  of \<open>DayFromYear\<close> are handled one at a time.
\<close>

lemma div_step:
  fixes a n :: int
  assumes n: "0 < n"
  shows "(a + 1) div n = a div n + (if (a + 1) mod n = 0 then 1 else 0)"
proof -
  define q where "q = a div n"
  define r where "r = a mod n"
  have a: "a = n * q + r" by (simp add: q_def r_def)
  have r0: "0 \<le> r" and rn: "r < n" using n by (simp_all add: r_def)
  show ?thesis
  proof (cases "r + 1 = n")
    case True
    have e: "a + 1 = n * (q + 1) + 0" using a True by (simp add: algebra_simps)
    have "(a + 1) div n = q + 1" by (rule int_div_pos_eq [OF e]) (use n in simp_all)
    moreover have "(a + 1) mod n = 0" by (rule int_mod_pos_eq [OF e]) (use n in simp_all)
    ultimately show ?thesis unfolding q_def by simp
  next
    case False
    have e: "a + 1 = n * q + (r + 1)" using a by simp
    have r1: "0 \<le> r + 1" "r + 1 < n" using r0 rn False by linarith+
    have "(a + 1) div n = q" by (rule int_div_pos_eq [OF e r1])
    moreover have "(a + 1) mod n = r + 1" by (rule int_mod_pos_eq [OF e r1])
    ultimately show ?thesis unfolding q_def using r0 by simp
  qed
qed

lemma mod_shift:
  fixes y k n :: int
  shows "(y - k * n) mod n = y mod n"
proof -
  have "y - k * n = y + (- k) * n" by simp
  then show ?thesis by (simp only: mod_mult_self1)
qed

lemma leap_div4: "(y - 1968) div 4 = (y - 1969) div 4 + (if y mod 4 = 0 then 1 else 0)"
  for y :: int
proof -
  have "(y - 1968) mod 4 = y mod 4" using mod_shift [of y 492 4] by simp
  then show ?thesis using div_step [of 4 "y - 1969"] by simp
qed

lemma leap_div100: "(y - 1900) div 100 = (y - 1901) div 100 + (if y mod 100 = 0 then 1 else 0)"
  for y :: int
proof -
  have "(y - 1900) mod 100 = y mod 100" using mod_shift [of y 19 100] by simp
  then show ?thesis using div_step [of 100 "y - 1901"] by simp
qed

lemma leap_div400: "(y - 1600) div 400 = (y - 1601) div 400 + (if y mod 400 = 0 then 1 else 0)"
  for y :: int
proof -
  have "(y - 1600) mod 400 = y mod 400" using mod_shift [of y 4 400] by simp
  then show ?thesis using div_step [of 400 "y - 1601"] by simp
qed

lemma mod400_100: "y mod 400 = 0 \<Longrightarrow> y mod 100 = 0" for y :: int
proof -
  assume "y mod 400 = 0"
  then have "400 dvd y" by (simp add: mod_eq_0_iff_dvd)
  moreover have "(100::int) dvd 400" by simp
  ultimately have "100 dvd y" by (rule dvd_trans [rotated])
  then show ?thesis by (simp add: mod_eq_0_iff_dvd)
qed

lemma mod100_4: "y mod 100 = 0 \<Longrightarrow> y mod 4 = 0" for y :: int
proof -
  assume "y mod 100 = 0"
  then have "100 dvd y" by (simp add: mod_eq_0_iff_dvd)
  moreover have "(4::int) dvd 100" by simp
  ultimately have "4 dvd y" by (rule dvd_trans [rotated])
  then show ?thesis by (simp add: mod_eq_0_iff_dvd)
qed

lemma DayFromYear_Suc: "DayFromYear (y + 1) = DayFromYear y + DaysInYear y"
proof -
  have "DayFromYear (y + 1) =
      365 * (y - 1969) + (y - 1968) div 4 - (y - 1900) div 100 + (y - 1600) div 400"
    by (simp add: DayFromYear_def)
  also have "\<dots> = DayFromYear y + 365 + (if y mod 4 = 0 then 1 else 0)
      - (if y mod 100 = 0 then 1 else 0) + (if y mod 400 = 0 then 1 else 0)"
    unfolding leap_div4 leap_div100 leap_div400 DayFromYear_def by simp
  also have "\<dots> = DayFromYear y + DaysInYear y"
    using mod400_100 [of y] mod100_4 [of y] by (auto simp: DaysInYear_def)
  finally show ?thesis .
qed

lemma DaysInYear_pos: "365 \<le> DaysInYear y"
  by (simp add: DaysInYear_def)

lemma DayFromYear_less: "DayFromYear y < DayFromYear (y + 1)"
  using DaysInYear_pos [of y] by (simp add: DayFromYear_Suc)

lemma DayFromYear_mono: "y \<le> z \<Longrightarrow> DayFromYear y \<le> DayFromYear z"
proof (induction z rule: int_ge_induct)
  case base
  show ?case by simp
next
  case (step i)
  then show ?case using DayFromYear_less [of i] by linarith
qed

subsection \<open>The year of a day\<close>

text \<open>
  ECMAScript defines \<open>YearFromTime t\<close> as the largest year \<open>y\<close> whose first day is not
  after \<open>t\<close>. The model finds it by a search from the estimate \<open>1970 + d div 365\<close>:
  downwards until the year starts on or before day \<open>d\<close>, then upwards while the next year
  does too. Both loops terminate because \<open>DayFromYear\<close> is strictly increasing.
\<close>

function yearDown :: "int \<Rightarrow> int \<Rightarrow> int" where
  "yearDown d y = (if d < DayFromYear y then yearDown d (y - 1) else y)"
  by pat_completeness auto
termination
proof (relation "measure (\<lambda>(d, y). nat (DayFromYear y - d))")
  show "wf (measure (\<lambda>(d, y). nat (DayFromYear y - d)))" by (rule wf_measure)
next
  fix d y :: int
  assume a: "d < DayFromYear y"
  have "DayFromYear (y - 1) < DayFromYear y"
    using DayFromYear_less [of "y - 1"] by simp
  with a have "nat (DayFromYear (y - 1) - d) < nat (DayFromYear y - d)"
    by linarith
  then show "((d, y - 1), (d, y)) \<in> measure (\<lambda>(d, y). nat (DayFromYear y - d))"
    by (simp only: in_measure split_conv)
qed

function yearUp :: "int \<Rightarrow> int \<Rightarrow> int" where
  "yearUp d y = (if DayFromYear (y + 1) \<le> d then yearUp d (y + 1) else y)"
  by pat_completeness auto
termination
proof (relation "measure (\<lambda>(d, y). nat (d - DayFromYear y))")
  show "wf (measure (\<lambda>(d, y). nat (d - DayFromYear y)))" by (rule wf_measure)
next
  fix d y :: int
  assume a: "DayFromYear (y + 1) \<le> d"
  have "DayFromYear y < DayFromYear (y + 1)" by (rule DayFromYear_less)
  with a have "nat (d - DayFromYear (y + 1)) < nat (d - DayFromYear y)"
    by linarith
  then show "((d, y + 1), (d, y)) \<in> measure (\<lambda>(d, y). nat (d - DayFromYear y))"
    by (simp only: in_measure split_conv)
qed

declare yearDown.simps [simp del] yearUp.simps [simp del]

definition YearFromDay :: "int \<Rightarrow> int" where
  "YearFromDay d = yearUp d (yearDown d (1970 + d div 365))"

lemma yearDown_le: "DayFromYear (yearDown d y) \<le> d"
proof (induction d y rule: yearDown.induct)
  case (1 d y)
  show ?case
  proof (cases "d < DayFromYear y")
    case True
    then show ?thesis using "1.IH" by (subst yearDown.simps) simp
  next
    case False
    then show ?thesis by (subst yearDown.simps) simp
  qed
qed

lemma yearUp_bounds:
  "DayFromYear y \<le> d \<Longrightarrow>
     DayFromYear (yearUp d y) \<le> d \<and> d < DayFromYear (yearUp d y + 1)"
proof (induction d y rule: yearUp.induct)
  case (1 d y)
  show ?case
  proof (cases "DayFromYear (y + 1) \<le> d")
    case True
    then show ?thesis using "1.IH" by (subst (1 2) yearUp.simps) simp
  next
    case False
    then show ?thesis using "1.prems" by (subst (1 2) yearUp.simps) simp
  qed
qed

lemma YearFromDay_bounds:
  "DayFromYear (YearFromDay d) \<le> d \<and> d < DayFromYear (YearFromDay d + 1)"
  unfolding YearFromDay_def by (rule yearUp_bounds) (rule yearDown_le)

lemma year_unique:
  assumes "DayFromYear y \<le> d" "d < DayFromYear (y + 1)"
    and "DayFromYear z \<le> d" "d < DayFromYear (z + 1)"
  shows "y = z"
proof (rule ccontr)
  assume "y \<noteq> z"
  then consider "y + 1 \<le> z" | "z + 1 \<le> y" by linarith
  then show False
  proof cases
    case 1
    then have "DayFromYear (y + 1) \<le> DayFromYear z" by (rule DayFromYear_mono)
    with assms show False by linarith
  next
    case 2
    then have "DayFromYear (z + 1) \<le> DayFromYear y" by (rule DayFromYear_mono)
    with assms show False by linarith
  qed
qed

lemma YearFromDay_eq:
  "DayFromYear y \<le> d \<Longrightarrow> d < DayFromYear (y + 1) \<Longrightarrow> YearFromDay d = y"
  using YearFromDay_bounds [of d] year_unique [of "YearFromDay d" d y] by blast

subsection \<open>Month and day of the month\<close>

text \<open>
  \<open>monthOfYearDay\<close> is ECMAScript's table for \<open>MonthFromTime\<close> (months are numbered from
  0), \<open>monthStart\<close> the first day of each month within its year, which \<open>DateFromTime\<close>
  subtracts. \<open>L\<close> is \<open>InLeapYear\<close>: 1 in a leap year, 0 otherwise.
\<close>

definition leapDays :: "int \<Rightarrow> int" where
  "leapDays y = DaysInYear y - 365"

definition monthStart :: "int \<Rightarrow> int \<Rightarrow> int" where
  "monthStart L m =
     (if m = 0 then 0 else if m = 1 then 31 else if m = 2 then 59 + L
      else if m = 3 then 90 + L else if m = 4 then 120 + L else if m = 5 then 151 + L
      else if m = 6 then 181 + L else if m = 7 then 212 + L else if m = 8 then 243 + L
      else if m = 9 then 273 + L else if m = 10 then 304 + L else 334 + L)"

definition monthOfYearDay :: "int \<Rightarrow> int \<Rightarrow> int" where
  "monthOfYearDay L n =
     (if n < 31 then 0 else if n < 59 + L then 1 else if n < 90 + L then 2
      else if n < 120 + L then 3 else if n < 151 + L then 4 else if n < 181 + L then 5
      else if n < 212 + L then 6 else if n < 243 + L then 7 else if n < 273 + L then 8
      else if n < 304 + L then 9 else if n < 334 + L then 10 else 11)"

definition daysInMonth :: "int \<Rightarrow> int \<Rightarrow> int" where
  "daysInMonth y m =
     (if m = 1 then 28 + leapDays y
      else if m = 3 \<or> m = 5 \<or> m = 8 \<or> m = 10 then 30 else 31)"

definition YearFromTime :: "int \<Rightarrow> int" where
  "YearFromTime t = YearFromDay (Day t)"

definition InLeapYear :: "int \<Rightarrow> int" where
  "InLeapYear t = leapDays (YearFromTime t)"

definition DayWithinYear :: "int \<Rightarrow> int" where
  "DayWithinYear t = Day t - DayFromYear (YearFromTime t)"

definition MonthFromTime :: "int \<Rightarrow> int" where
  "MonthFromTime t = monthOfYearDay (InLeapYear t) (DayWithinYear t)"

definition DateFromTime :: "int \<Rightarrow> int" where
  "DateFromTime t = DayWithinYear t - monthStart (InLeapYear t) (MonthFromTime t) + 1"

definition HourFromTime :: "int \<Rightarrow> int" where
  "HourFromTime t = (t div 3600000) mod 24"

definition MinFromTime :: "int \<Rightarrow> int" where
  "MinFromTime t = (t div 60000) mod 60"

definition SecFromTime :: "int \<Rightarrow> int" where
  "SecFromTime t = (t div 1000) mod 60"

definition msFromTime :: "int \<Rightarrow> int" where
  "msFromTime t = t mod 1000"

text \<open>
  \<open>MakeDay\<close> accepts any month and day number: a month outside 0..11 carries into the
  year, and a day outside the month counts on from the month's first day. This is the
  normalisation that turns 30 February into 2 March.
\<close>

definition MakeDay :: "int \<Rightarrow> int \<Rightarrow> int \<Rightarrow> int" where
  "MakeDay year month date =
     (let ym = year + month div 12; mn = month mod 12
      in DayFromYear ym + monthStart (leapDays ym) mn + date - 1)"

definition MakeTime :: "int \<Rightarrow> int \<Rightarrow> int \<Rightarrow> int \<Rightarrow> int" where
  "MakeTime hour minute sec ms = hour * 3600000 + minute * 60000 + sec * 1000 + ms"

definition MakeDate :: "int \<Rightarrow> int \<Rightarrow> int" where
  "MakeDate day time = day * msPerDay + time"

lemma leapDays_cases: "leapDays y = 0 \<or> leapDays y = 1"
  by (simp add: leapDays_def DaysInYear_def)

lemma month_cases:
  fixes m :: int
  assumes "0 \<le> m" "m < 12"
  shows "m = 0 \<or> m = 1 \<or> m = 2 \<or> m = 3 \<or> m = 4 \<or> m = 5 \<or> m = 6 \<or> m = 7 \<or> m = 8
     \<or> m = 9 \<or> m = 10 \<or> m = 11"
  using assms by arith

lemma MakeDay_plain:
  "0 \<le> m \<Longrightarrow> m < 12 \<Longrightarrow> MakeDay y m d = DayFromYear y + monthStart (leapDays y) m + d - 1"
  by (simp add: MakeDay_def)

lemma monthStart_simps:
  "monthStart L 0 = 0" "monthStart L 1 = 31" "monthStart L 2 = 59 + L"
  "monthStart L 3 = 90 + L" "monthStart L 4 = 120 + L" "monthStart L 5 = 151 + L"
  "monthStart L 6 = 181 + L" "monthStart L 7 = 212 + L" "monthStart L 8 = 243 + L"
  "monthStart L 9 = 273 + L" "monthStart L 10 = 304 + L" "monthStart L 11 = 334 + L"
  by (simp_all add: monthStart_def)

lemma monthOfYearDay_ranges:
  "n < 31 \<Longrightarrow> monthOfYearDay L n = 0"
  "31 \<le> n \<Longrightarrow> n < 59 + L \<Longrightarrow> monthOfYearDay L n = 1"
  "0 \<le> L \<Longrightarrow> 59 + L \<le> n \<Longrightarrow> n < 90 + L \<Longrightarrow> monthOfYearDay L n = 2"
  "0 \<le> L \<Longrightarrow> 90 + L \<le> n \<Longrightarrow> n < 120 + L \<Longrightarrow> monthOfYearDay L n = 3"
  "0 \<le> L \<Longrightarrow> 120 + L \<le> n \<Longrightarrow> n < 151 + L \<Longrightarrow> monthOfYearDay L n = 4"
  "0 \<le> L \<Longrightarrow> 151 + L \<le> n \<Longrightarrow> n < 181 + L \<Longrightarrow> monthOfYearDay L n = 5"
  "0 \<le> L \<Longrightarrow> 181 + L \<le> n \<Longrightarrow> n < 212 + L \<Longrightarrow> monthOfYearDay L n = 6"
  "0 \<le> L \<Longrightarrow> 212 + L \<le> n \<Longrightarrow> n < 243 + L \<Longrightarrow> monthOfYearDay L n = 7"
  "0 \<le> L \<Longrightarrow> 243 + L \<le> n \<Longrightarrow> n < 273 + L \<Longrightarrow> monthOfYearDay L n = 8"
  "0 \<le> L \<Longrightarrow> 273 + L \<le> n \<Longrightarrow> n < 304 + L \<Longrightarrow> monthOfYearDay L n = 9"
  "0 \<le> L \<Longrightarrow> 304 + L \<le> n \<Longrightarrow> n < 334 + L \<Longrightarrow> monthOfYearDay L n = 10"
  "0 \<le> L \<Longrightarrow> 334 + L \<le> n \<Longrightarrow> monthOfYearDay L n = 11"
  by (simp_all add: monthOfYearDay_def)

lemma yearDay_bounds_L:
  fixes L m d :: int
  assumes L: "L = 0 \<or> L = 1" and m: "0 \<le> m" "m < 12" and d: "1 \<le> d"
    "d \<le> (if m = 1 then 28 + L else if m = 3 \<or> m = 5 \<or> m = 8 \<or> m = 10 then 30 else 31)"
  shows "0 \<le> monthStart L m + d - 1 \<and> monthStart L m + d - 1 < 365 + L"
proof -
  have L0: "0 \<le> L" and L1: "L \<le> 1" using L by auto
  show ?thesis
    using month_cases [OF m]
  proof (elim disjE)
  qed (use L0 L1 d in \<open>simp_all add: monthStart_simps\<close>)
qed

lemma monthOfYearDay_start_L:
  fixes L m d :: int
  assumes L: "L = 0 \<or> L = 1" and m: "0 \<le> m" "m < 12" and d: "1 \<le> d"
    "d \<le> (if m = 1 then 28 + L else if m = 3 \<or> m = 5 \<or> m = 8 \<or> m = 10 then 30 else 31)"
  shows "monthOfYearDay L (monthStart L m + d - 1) = m"
proof -
  have L0: "0 \<le> L" and L1: "L \<le> 1" using L by auto
  show ?thesis
    using month_cases [OF m]
  proof (elim disjE)
  qed (use L0 L1 d in \<open>simp_all add: monthStart_simps monthOfYearDay_def\<close>)
qed

lemma yearDay_bounds:
  assumes m: "0 \<le> m" "m < 12" and d: "1 \<le> d" "d \<le> daysInMonth y m"
  shows "0 \<le> monthStart (leapDays y) m + d - 1"
    and "monthStart (leapDays y) m + d - 1 < DaysInYear y"
proof -
  have dm: "d \<le> (if m = 1 then 28 + leapDays y
      else if m = 3 \<or> m = 5 \<or> m = 8 \<or> m = 10 then 30 else 31)"
    using d(2) unfolding daysInMonth_def .
  note b = yearDay_bounds_L [OF leapDays_cases m d(1) dm]
  from b show "0 \<le> monthStart (leapDays y) m + d - 1" by simp
  from b show "monthStart (leapDays y) m + d - 1 < DaysInYear y"
    by (simp add: leapDays_def)
qed

lemma monthOfYearDay_start:
  assumes m: "0 \<le> m" "m < 12" and d: "1 \<le> d" "d \<le> daysInMonth y m"
  shows "monthOfYearDay (leapDays y) (monthStart (leapDays y) m + d - 1) = m"
proof -
  have dm: "d \<le> (if m = 1 then 28 + leapDays y
      else if m = 3 \<or> m = 5 \<or> m = 8 \<or> m = 10 then 30 else 31)"
    using d(2) unfolding daysInMonth_def .
  show ?thesis by (rule monthOfYearDay_start_L [OF leapDays_cases m d(1) dm])
qed

lemma YearFromDay_MakeDay:
  assumes m: "0 \<le> m" "m < 12" and d: "1 \<le> d" "d \<le> daysInMonth y m"
  shows "YearFromDay (MakeDay y m d) = y"
proof (rule YearFromDay_eq)
  show "DayFromYear y \<le> MakeDay y m d"
    using yearDay_bounds(1) [OF m d] by (simp add: MakeDay_plain m)
  show "MakeDay y m d < DayFromYear (y + 1)"
    using yearDay_bounds(2) [OF m d] by (simp add: MakeDay_plain m DayFromYear_Suc)
qed

lemma month_date_valid:
  fixes L n :: int
  assumes L: "L = 0 \<or> L = 1" and n: "0 \<le> n" "n < 365 + L"
  shows "0 \<le> monthOfYearDay L n \<and> monthOfYearDay L n < 12
     \<and> 1 \<le> n - monthStart L (monthOfYearDay L n) + 1
     \<and> n - monthStart L (monthOfYearDay L n) + 1
          \<le> (if monthOfYearDay L n = 1 then 28 + L
              else if monthOfYearDay L n = 3 \<or> monthOfYearDay L n = 5
                   \<or> monthOfYearDay L n = 8 \<or> monthOfYearDay L n = 10 then 30 else 31)"
proof -
  have L0: "0 \<le> L" and L1: "L \<le> 1" using L by auto
  show ?thesis
  proof (cases "n < 31")
    case True
    then show ?thesis using n L0 L1 by (simp add: monthOfYearDay_ranges(1) monthStart_simps)
  next
    case False
    then have lo1: "31 \<le> n" by simp
    show ?thesis
    proof (cases "n < 59 + L")
      case True
      then show ?thesis using lo1 L0 L1 by (simp add: monthOfYearDay_ranges(2) monthStart_simps)
    next
      case False
      then have lo2: "59 + L \<le> n" by simp
      show ?thesis
      proof (cases "n < 90 + L")
        case True
        then show ?thesis using lo2 L0 L1 by (simp add: monthOfYearDay_ranges(3) monthStart_simps)
      next
        case False
        then have lo3: "90 + L \<le> n" by simp
        show ?thesis
        proof (cases "n < 120 + L")
          case True
          then show ?thesis using lo3 L0 L1 by (simp add: monthOfYearDay_ranges(4) monthStart_simps)
        next
          case False
          then have lo4: "120 + L \<le> n" by simp
          show ?thesis
          proof (cases "n < 151 + L")
            case True
            then show ?thesis using lo4 L0 L1 by (simp add: monthOfYearDay_ranges(5) monthStart_simps)
          next
            case False
            then have lo5: "151 + L \<le> n" by simp
            show ?thesis
            proof (cases "n < 181 + L")
              case True
              then show ?thesis using lo5 L0 L1 by (simp add: monthOfYearDay_ranges(6) monthStart_simps)
            next
              case False
              then have lo6: "181 + L \<le> n" by simp
              show ?thesis
              proof (cases "n < 212 + L")
                case True
                then show ?thesis using lo6 L0 L1 by (simp add: monthOfYearDay_ranges(7) monthStart_simps)
              next
                case False
                then have lo7: "212 + L \<le> n" by simp
                show ?thesis
                proof (cases "n < 243 + L")
                  case True
                  then show ?thesis using lo7 L0 L1 by (simp add: monthOfYearDay_ranges(8) monthStart_simps)
                next
                  case False
                  then have lo8: "243 + L \<le> n" by simp
                  show ?thesis
                  proof (cases "n < 273 + L")
                    case True
                    then show ?thesis using lo8 L0 L1 by (simp add: monthOfYearDay_ranges(9) monthStart_simps)
                  next
                    case False
                    then have lo9: "273 + L \<le> n" by simp
                    show ?thesis
                    proof (cases "n < 304 + L")
                      case True
                      then show ?thesis using lo9 L0 L1 by (simp add: monthOfYearDay_ranges(10) monthStart_simps)
                    next
                      case False
                      then have lo10: "304 + L \<le> n" by simp
                      show ?thesis
                      proof (cases "n < 334 + L")
                        case True
                        then show ?thesis using lo10 L0 L1 by (simp add: monthOfYearDay_ranges(11) monthStart_simps)
                      next
                        case False
                        then have lo11: "334 + L \<le> n" by simp
                        show ?thesis using lo11 n L0 L1 by (simp add: monthOfYearDay_ranges(12) monthStart_simps)
                      qed
                    qed
                  qed
                qed
              qed
            qed
          qed
        qed
      qed
    qed
  qed
qed

lemma DayWithinYear_bounds:
  "0 \<le> DayWithinYear t \<and> DayWithinYear t < 365 + InLeapYear t"
  using YearFromDay_bounds [of "Day t"]
  by (simp add: DayWithinYear_def InLeapYear_def YearFromTime_def leapDays_def DayFromYear_Suc)

text \<open>The calendar fields of every time value name an existing day.\<close>

lemma fields_valid:
  "0 \<le> MonthFromTime t \<and> MonthFromTime t < 12 \<and> 1 \<le> DateFromTime t
     \<and> DateFromTime t \<le> daysInMonth (YearFromTime t) (MonthFromTime t)"
proof -
  have L: "InLeapYear t = 0 \<or> InLeapYear t = 1"
    unfolding InLeapYear_def by (rule leapDays_cases)
  from month_date_valid [OF L] DayWithinYear_bounds [of t]
  show ?thesis
    unfolding MonthFromTime_def DateFromTime_def daysInMonth_def InLeapYear_def by simp
qed

lemma MakeDay_fields:
  "MakeDay (YearFromTime t) (MonthFromTime t) (DateFromTime t) = Day t"
  using fields_valid [of t]
  by (simp add: MakeDay_plain DateFromTime_def DayWithinYear_def InLeapYear_def)

lemma Day_MakeDate:
  assumes "0 \<le> tod" "tod < msPerDay"
  shows "Day (MakeDate day tod) = day" and "TimeWithinDay (MakeDate day tod) = tod"
proof -
  have e: "MakeDate day tod = msPerDay * day + tod" by (simp add: MakeDate_def)
  show "Day (MakeDate day tod) = day"
    unfolding Day_def by (rule int_div_pos_eq [OF e assms])
  show "TimeWithinDay (MakeDate day tod) = tod"
    unfolding TimeWithinDay_def by (rule int_mod_pos_eq [OF e assms])
qed

text \<open>
  Building a time value from an existing day and reading its fields back gives the same
  year, month and day.
\<close>

lemma fields_of_MakeDate:
  assumes m: "0 \<le> m" "m < 12" and d: "1 \<le> d" "d \<le> daysInMonth y m"
    and tod: "0 \<le> tod" "tod < msPerDay"
  shows "YearFromTime (MakeDate (MakeDay y m d) tod) = y"
    and "MonthFromTime (MakeDate (MakeDay y m d) tod) = m"
    and "DateFromTime (MakeDate (MakeDay y m d) tod) = d"
proof -
  let ?t = "MakeDate (MakeDay y m d) tod"
  have day: "Day ?t = MakeDay y m d" by (rule Day_MakeDate(1) [OF tod])
  show y: "YearFromTime ?t = y"
    unfolding YearFromTime_def day by (rule YearFromDay_MakeDay [OF m d])
  have dwy: "DayWithinYear ?t = monthStart (leapDays y) m + d - 1"
    unfolding DayWithinYear_def y day by (simp add: MakeDay_plain m)
  show mo: "MonthFromTime ?t = m"
    unfolding MonthFromTime_def InLeapYear_def y dwy by (rule monthOfYearDay_start [OF m d])
  show "DateFromTime ?t = d"
    unfolding DateFromTime_def mo InLeapYear_def y dwy by simp
qed

section \<open>Strings and numbers\<close>

text \<open>
  JavaScript strings are modelled as \<open>string\<close>. The regular expressions of the source
  only look at ASCII digits, the letters \<open>d\<close>, \<open>m\<close>, \<open>y\<close>, \<open>/\<close> and \<open>-\<close>, so
  every character they can accept is representable. \<open>toLowerCase\<close> maps the letters
  \<open>A\<close> to \<open>Z\<close>; no other character becomes \<open>d\<close>, \<open>m\<close> or \<open>y\<close> in lower case, so
  the shortcut pattern sees the same matches as in JavaScript.
\<close>

definition isDigit :: "char \<Rightarrow> bool" where
  \<comment> \<open>the regular expression class \<open>\d\<close>\<close>
  "isDigit c = (c \<in> set ''0123456789'')"

definition digitVal :: "char \<Rightarrow> int" where
  "digitVal c = int (of_char c) - 48"

definition digitChar :: "int \<Rightarrow> char" where
  "digitChar k =
     (if k = 0 then CHR ''0'' else if k = 1 then CHR ''1'' else if k = 2 then CHR ''2''
      else if k = 3 then CHR ''3'' else if k = 4 then CHR ''4'' else if k = 5 then CHR ''5''
      else if k = 6 then CHR ''6'' else if k = 7 then CHR ''7'' else if k = 8 then CHR ''8''
      else CHR ''9'')"

definition digitsValue :: "string \<Rightarrow> int" where
  \<comment> \<open>the decimal value of a string of digits\<close>
  "digitsValue s = foldl (\<lambda>acc c. 10 * acc + digitVal c) 0 s"

definition isSpace :: "char \<Rightarrow> bool" where
  \<comment> \<open>white space and line terminators that \<open>String.prototype.trim\<close> strips, as far as
      they fit in one byte: TAB, LF, VT, FF, CR, SP, NBSP\<close>
  "isSpace c = (of_char c \<in> {9, 10, 11, 12, 13, 32, 160 :: nat})"

definition trim :: "string \<Rightarrow> string" where
  "trim s = rev (dropWhile isSpace (rev (dropWhile isSpace s)))"

definition toLowerChar :: "char \<Rightarrow> char" where
  "toLowerChar c =
     (case map_of (zip ''ABCDEFGHIJKLMNOPQRSTUVWXYZ'' ''abcdefghijklmnopqrstuvwxyz'') c of
        Some l \<Rightarrow> l
      | None \<Rightarrow> c)"

definition toLowerCase :: "string \<Rightarrow> string" where
  "toLowerCase s = map toLowerChar s"

text \<open>
  \<open>splitOn sep s\<close> is \<open>s.split(sep)\<close> for a one-character separator: the empty string
  splits into one empty part.
\<close>

fun splitOn :: "char \<Rightarrow> string \<Rightarrow> string list" where
  "splitOn sep [] = [[]]"
| "splitOn sep (c # cs) =
     (if c = sep then [] # splitOn sep cs
      else (case splitOn sep cs of p # ps \<Rightarrow> (c # p) # ps | [] \<Rightarrow> [[c]]))"

definition nthOpt :: "'a list \<Rightarrow> nat \<Rightarrow> 'a option" where
  \<comment> \<open>array indexing and destructuring: a missing element is \<open>undefined\<close>\<close>
  "nthOpt xs i = (if i < length xs then Some (xs ! i) else None)"

text \<open>
  \<open>parseInt\<close> in radix 10: leading white space, an optional sign, then the longest run of
  digits; \<open>NaN\<close> (\<open>None\<close>) when there is no digit. The source also calls \<open>parseInt\<close>
  without a radix, but only on parts that a regular expression has checked to be digits,
  where the radix defaults to 10. \<open>toNumber\<close> is \<open>Number\<close> on such a part; other
  numeric literals do not reach it and are not modelled.
\<close>

definition parseInt :: "string \<Rightarrow> int option" where
  "parseInt s =
     (let t = dropWhile isSpace s;
          neg = (case t of c # _ \<Rightarrow> c = CHR ''-'' | [] \<Rightarrow> False);
          u = (case t of c # r \<Rightarrow> if c = CHR ''-'' \<or> c = CHR ''+'' then r else t | [] \<Rightarrow> []);
          ds = takeWhile isDigit u
      in if ds = [] then None
         else Some (if neg then - digitsValue ds else digitsValue ds))"

definition parseIntU :: "string option \<Rightarrow> int option" where
  \<comment> \<open>\<open>parseInt(undefined)\<close> is \<open>NaN\<close>\<close>
  "parseIntU p = (case p of None \<Rightarrow> None | Some s \<Rightarrow> parseInt s)"

definition toNumber :: "string \<Rightarrow> int option" where
  "toNumber s = (if list_all isDigit s then Some (digitsValue s) else None)"

definition numLess :: "int option \<Rightarrow> int option \<Rightarrow> bool" where
  \<comment> \<open>\<open><\<close> on numbers: false as soon as one side is \<open>NaN\<close>\<close>
  "numLess a b = (case (a, b) of (Some x, Some y) \<Rightarrow> x < y | _ \<Rightarrow> False)"

definition pad2 :: "int \<Rightarrow> string" where
  "pad2 n = [digitChar (n div 10 mod 10), digitChar (n mod 10)]"

definition pad3 :: "int \<Rightarrow> string" where
  "pad3 n = [digitChar (n div 100 mod 10), digitChar (n div 10 mod 10), digitChar (n mod 10)]"

definition pad4 :: "int \<Rightarrow> string" where
  "pad4 n = digitChar (n div 1000 mod 10) # pad3 n"

definition pad6 :: "int \<Rightarrow> string" where
  "pad6 n = digitChar (n div 100000 mod 10) # digitChar (n div 10000 mod 10) # pad4 n"

section \<open>The \<open>Date\<close> operations the component calls\<close>

text \<open>
  A \<open>Date\<close> is its time value; \<open>None\<close> is the invalid date, whose time value is
  \<open>NaN\<close>. \<open>TimeClip\<close> bounds time values to 100 million days either side of the epoch.
  \<open>Date.UTC\<close> and the \<open>Date\<close> constructor read a year from 0 to 99 as 1900 plus that
  year (\<open>MakeFullYear\<close>).
\<close>

type_synonym jsdate = "int option"

definition TimeClip :: "int \<Rightarrow> jsdate" where
  "TimeClip t = (if 8640000000000000 < \<bar>t\<bar> then None else Some t)"

definition MakeFullYear :: "int \<Rightarrow> int" where
  "MakeFullYear y = (if 0 \<le> y \<and> y \<le> 99 then 1900 + y else y)"

definition DateUTC :: "int \<Rightarrow> int \<Rightarrow> int \<Rightarrow> int \<Rightarrow> int \<Rightarrow> int \<Rightarrow> int \<Rightarrow> jsdate" where
  \<comment> \<open>\<open>new Date(Date.UTC(year, month, date, hours, minutes, seconds, ms))\<close>\<close>
  "DateUTC year month date hours minutes seconds ms =
     TimeClip (MakeDate (MakeDay (MakeFullYear year) month date)
                        (MakeTime hours minutes seconds ms))"

text \<open>
  Local time. The environment's time zone is a fixed offset \<open>tza\<close> from UTC in
  milliseconds (India is \<open>19800000\<close>, five and a half hours ahead); zones whose offset
  changes during the year are outside the model. \<open>newDateLocal tza y m d\<close> is
  \<open>new Date(y, m, d)\<close>, midnight local time; an argument that is \<open>NaN\<close> gives the invalid
  date.
\<close>

definition newDateLocal :: "int \<Rightarrow> int option \<Rightarrow> int option \<Rightarrow> int option \<Rightarrow> jsdate" where
  "newDateLocal tza year month date =
     (case (year, month, date) of
        (Some y, Some m, Some d) \<Rightarrow>
          TimeClip (MakeDate (MakeDay (MakeFullYear y) m d) (MakeTime 0 0 0 0) - tza)
      | _ \<Rightarrow> None)"

definition getFullYear :: "int \<Rightarrow> jsdate \<Rightarrow> int option" where
  "getFullYear tza D = map_option (\<lambda>t. YearFromTime (t + tza)) D"

definition getMonth :: "int \<Rightarrow> jsdate \<Rightarrow> int option" where
  "getMonth tza D = map_option (\<lambda>t. MonthFromTime (t + tza)) D"

definition getDate :: "int \<Rightarrow> jsdate \<Rightarrow> int option" where
  "getDate tza D = map_option (\<lambda>t. DateFromTime (t + tza)) D"

text \<open>
  \<open>toISOString\<close> prints the UTC fields of the time value. Years 0 to 9999 take four
  digits, all others a sign and six digits. On the invalid date it throws a
  \<open>RangeError\<close>, which is \<open>None\<close> here.
\<close>

definition isoYear :: "int \<Rightarrow> string" where
  "isoYear y =
     (if 0 \<le> y \<and> y \<le> 9999 then pad4 y
      else (if y < 0 then CHR ''-'' else CHR ''+'') # pad6 \<bar>y\<bar>)"

definition toISOString :: "jsdate \<Rightarrow> string option" where
  "toISOString D =
     (case D of
        None \<Rightarrow> None
      | Some t \<Rightarrow>
          Some (isoYear (YearFromTime t) @ ''-'' @ pad2 (MonthFromTime t + 1) @ ''-''
                @ pad2 (DateFromTime t) @ ''T'' @ pad2 (HourFromTime t) @ '':''
                @ pad2 (MinFromTime t) @ '':'' @ pad2 (SecFromTime t) @ ''.''
                @ pad3 (msFromTime t) @ ''Z''))"

subsection \<open>Calendar dates\<close>

text \<open>
  The specification's \<open>CalendarDate\<close>: a year, a month from 1 to 12 and a day of that
  month. \<open>localDate tza t\<close> is the calendar date a consumer in the zone \<open>tza\<close> reads
  from a time value with \<open>getFullYear\<close>, \<open>getMonth\<close> and \<open>getDate\<close>, as
  \<open>dateToISOString\<close> and the display formatter do.
\<close>

type_synonym calendarDate = "int \<times> int \<times> int"

definition validDate :: "calendarDate \<Rightarrow> bool" where
  "validDate cd =
     (case cd of (y, m, d) \<Rightarrow> 1 \<le> m \<and> m \<le> 12 \<and> 1 \<le> d \<and> d \<le> daysInMonth y (m - 1))"

definition localDate :: "int \<Rightarrow> int \<Rightarrow> calendarDate" where
  "localDate tza t =
     (YearFromTime (t + tza), MonthFromTime (t + tza) + 1, DateFromTime (t + tza))"

subsection \<open>Date arithmetic of the libraries\<close>

text \<open>
  Modelled from the spec: \<open>shiftMonth\<close> and \<open>shiftYear\<close>. The handlers call
  \<open>addMonths\<close> and \<open>addYears\<close> of date-fns, an imported library whose code is not in
  the repository. Section 4.5 of the specification describes the step: calendar-correct
  month and year stepping with the day of the month clamped to the target month
  (31 January plus one month is the last day of February).
\<close>

definition shiftMonth :: "calendarDate \<Rightarrow> int \<Rightarrow> calendarDate" where
  "shiftMonth cd delta =
     (case cd of (y, m, d) \<Rightarrow>
        (let k = 12 * y + (m - 1) + delta; y' = k div 12; m' = k mod 12
         in (y', m' + 1, min d (daysInMonth y' m'))))"

definition shiftYear :: "calendarDate \<Rightarrow> int \<Rightarrow> calendarDate" where
  "shiftYear cd delta = shiftMonth cd (12 * delta)"

text \<open>
  Modelled from the spec: \<open>addMonths\<close> (date-fns) and \<open>dayjsAdd\<close> (\<open>add\<close> of dayjs),
  both imported libraries whose code is not in the repository. They work in local time:
  the local calendar date is stepped (by \<open>shiftMonth\<close> for months and years, section
  4.3: month and year arithmetic clamps to the last valid day of the resulting month) and
  the local time of day is kept. An amount that is \<open>NaN\<close> gives the invalid date.
\<close>

definition withLocalDay :: "int \<Rightarrow> int \<Rightarrow> calendarDate \<Rightarrow> jsdate" where
  \<comment> \<open>the time value \<open>t\<close> moved to another local calendar day, local time of day kept\<close>
  "withLocalDay tza t cd =
     (case cd of (y, m, d) \<Rightarrow>
        TimeClip (MakeDate (MakeDay y (m - 1) d) (TimeWithinDay (t + tza)) - tza))"

definition addMonths :: "int \<Rightarrow> jsdate \<Rightarrow> int \<Rightarrow> jsdate" where
  "addMonths tza D n =
     (case D of
        None \<Rightarrow> None
      | Some t \<Rightarrow> withLocalDay tza t (shiftMonth (localDate tza t) n))"

datatype timeUnit = UnitDay | UnitMonth | UnitYear

definition dayjsAdd :: "int \<Rightarrow> jsdate \<Rightarrow> int option \<Rightarrow> timeUnit \<Rightarrow> jsdate" where
  "dayjsAdd tza D num u =
     (case (D, num) of
        (Some t, Some n) \<Rightarrow>
          (case u of
             UnitDay \<Rightarrow>
               (case localDate tza t of (y, m, d) \<Rightarrow> withLocalDay tza t (y, m, d + n))
           | UnitMonth \<Rightarrow> addMonths tza D n
           | UnitYear \<Rightarrow> addMonths tza D (12 * n))
      | _ \<Rightarrow> None)"

section \<open>The canonical date codec\<close>

text \<open>
  \<open>dateToISOString\<close> (the specification's \<open>toCanonical\<close>/\<open>encode\<close>) reads the local
  year, month and day of a \<open>Date\<close> and prints midnight UTC of that day:
  \<^verbatim>\<open>
  function dateToISOString(date: Date): string {
    const year = date.getFullYear();
    const month = date.getMonth();
    const day = date.getDate();
    const utcDate = new Date(Date.UTC(year, month, day, 0, 0, 0, 0));
    return utcDate.toISOString();
  }
  \<close>
\<close>

definition dateToISOString :: "int \<Rightarrow> jsdate \<Rightarrow> string option" where
  "dateToISOString tza date =
     (case (getFullYear tza date, getMonth tza date, getDate tza date) of
        (Some year, Some month, Some day) \<Rightarrow> toISOString (DateUTC year month day 0 0 0 0)
      | _ \<Rightarrow> toISOString None)"

text \<open>
  \<open>parseDateFromISO\<close> (\<open>fromCanonical\<close>/\<open>decode\<close>) matches
  \<^verbatim>\<open>/^(\d{4}-\d{2}-\d{2})/\<close>, splits the match at \<open>-\<close>, converts the three parts
  with \<open>Number\<close> and returns \<open>new Date(Date.UTC(year, month - 1, day, 12, 0, 0, 0))\<close>.
  It returns \<open>null\<close> (the outer \<open>None\<close>) for the empty string and when the expression
  does not match; nothing in its \<open>try\<close> block can throw. \<open>isoDateMatch\<close> is the
  regular expression with its capture group.
\<close>

definition isoDateMatch :: "string \<Rightarrow> string option" where
  "isoDateMatch s =
     (let p = take 10 s
      in if length p = 10 \<and> list_all isDigit (take 4 p) \<and> p ! 4 = CHR ''-''
            \<and> list_all isDigit (take 2 (drop 5 p)) \<and> p ! 7 = CHR ''-''
            \<and> list_all isDigit (drop 8 p)
         then Some p else None)"

definition utcNoon :: "int option list \<Rightarrow> jsdate" where
  \<comment> \<open>\<open>const [year, month, day] = ...; new Date(Date.UTC(year, month - 1, day, 12, 0, 0, 0))\<close>\<close>
  "utcNoon ymd =
     (case ymd of
        Some year # Some month # Some day # _ \<Rightarrow> DateUTC year (month - 1) day 12 0 0 0
      | _ \<Rightarrow> None)"

definition parseDateFromISO :: "string \<Rightarrow> jsdate option" where
  "parseDateFromISO isoString =
     (if isoString = [] then None
      else case isoDateMatch isoString of
             None \<Rightarrow> None
           | Some g \<Rightarrow> Some (utcNoon (map toNumber (splitOn CHR ''-'' g))))"

text \<open>
  \<open>parseDateString\<close> tries the same ISO prefix first and then the localized form
  \<^verbatim>\<open>/^(\d{1,2})\/(\d{1,2})\/(\d{4})$/\<close>, whose month and day it checks against 1..12
  and 1..31 before building the date.
\<close>

definition digitRun :: "nat \<Rightarrow> nat \<Rightarrow> string \<Rightarrow> bool" where
  \<comment> \<open>\<open>\d{lo,hi}\<close> matching a whole part\<close>
  "digitRun lo hi s = (lo \<le> length s \<and> length s \<le> hi \<and> list_all isDigit s)"

definition localizedMatch :: "string \<Rightarrow> (string \<times> string \<times> string) option" where
  "localizedMatch s =
     (case splitOn CHR ''/'' s of
        [a, b, c] \<Rightarrow>
          if digitRun 1 2 a \<and> digitRun 1 2 b \<and> digitRun 4 4 c then Some (a, b, c) else None
      | _ \<Rightarrow> None)"

definition parseDateString :: "string \<Rightarrow> jsdate option" where
  "parseDateString dateString =
     (if dateString = [] then None
      else case isoDateMatch dateString of
             Some g \<Rightarrow> Some (utcNoon (map toNumber (splitOn CHR ''-'' g)))
           | None \<Rightarrow>
               (case localizedMatch dateString of
                  Some (a, b, c) \<Rightarrow>
                    (let month = toNumber a; day = toNumber b; year = toNumber c
                     in if numLess month (Some 1) \<or> numLess (Some 12) month
                           \<or> numLess day (Some 1) \<or> numLess (Some 31) day
                        then None
                        else Some (utcNoon [year, month, day]))
                | None \<Rightarrow> None))"

section \<open>The picker's handlers\<close>

text \<open>
  What the handlers read from their surroundings: the time zone offset, the clock
  (\<open>dayjs()\<close> and \<open>new Date()\<close>), the two locale functions of date-fns, which stay
  parameters (\<open>localeParse v\<close> is \<open>parse(v, 'P', new Date(), { locale })\<close> and
  \<open>localeFormat d\<close> is \<open>format(d, 'P', { locale })\<close>), and the validator of the form that
  hosts the picker: \<open>validate v\<close> is the message that the form's \<open>validate\<close> function
  gives for the picker's field when the field holds \<open>v\<close>, or \<open>None\<close> when it gives none
  (as for a form without a validator, like the one of \<open>App.tsx\<close>).
\<close>

record env =
  tza :: int
  nowMs :: int
  localeParse :: "string \<Rightarrow> jsdate"
  localeFormat :: "jsdate \<Rightarrow> string"
  validate :: "string option \<Rightarrow> string option"

subsection \<open>Shortcut tokens\<close>

text \<open>
  \<^verbatim>\<open>
  const trimmed = input.trim().toLowerCase();
  const match = trimmed.match(/^([dmy])(\d*)$/);
  if (!match) return null;
  const [, type, numStr] = match;
  const num = numStr ? parseInt(numStr, 10) : 0;
  if (type === 'd') return dayjs().add(num, 'day').toDate();
  else if (type === 'm') return dayjs().add(num, 'month').toDate();
  else if (type === 'y') return dayjs().add(num, 'year').toDate();
  return null;
  \<close>
\<close>

definition shortcutMatch :: "string \<Rightarrow> (char \<times> string) option" where
  "shortcutMatch s =
     (case s of
        [] \<Rightarrow> None
      | c # r \<Rightarrow> if c \<in> set ''dmy'' \<and> list_all isDigit r then Some (c, r) else None)"

definition parseShortcut :: "env \<Rightarrow> string \<Rightarrow> jsdate option" where
  "parseShortcut e input =
     (let trimmed = toLowerCase (trim input)
      in case shortcutMatch trimmed of
           None \<Rightarrow> None
         | Some (ty, numStr) \<Rightarrow>
             (let num = (if numStr = [] then Some 0 else parseInt numStr)
              in if ty = CHR ''d'' then Some (dayjsAdd (tza e) (Some (nowMs e)) num UnitDay)
                 else if ty = CHR ''m'' then Some (dayjsAdd (tza e) (Some (nowMs e)) num UnitMonth)
                 else if ty = CHR ''y'' then Some (dayjsAdd (tza e) (Some (nowMs e)) num UnitYear)
                 else None))"

subsection \<open>Typed dates\<close>

text \<open>
  The four regular expressions of \<open>handleBlur\<close> in \<open>date-picker-component.tsx\<close>. Each
  is anchored at both ends and made of digit runs separated by \<open>/\<close>, so it matches
  exactly when splitting at \<open>/\<close> gives parts of the right number and lengths.
\<close>

definition reNumericDate :: "string \<Rightarrow> bool" where
  \<comment> \<open>\<^verbatim>\<open>/^\d{1,2}\/\d{1,2}(\/\d{2,4})?$/\<close>\<close>
  "reNumericDate v =
     (case splitOn CHR ''/'' v of
        [a, b] \<Rightarrow> digitRun 1 2 a \<and> digitRun 1 2 b
      | [a, b, c] \<Rightarrow> digitRun 1 2 a \<and> digitRun 1 2 b \<and> digitRun 2 4 c
      | _ \<Rightarrow> False)"

definition reMonthDay :: "string \<Rightarrow> bool" where
  \<comment> \<open>\<^verbatim>\<open>/^\d{1,2}\/\d{1,2}$/\<close>\<close>
  "reMonthDay v =
     (case splitOn CHR ''/'' v of [a, b] \<Rightarrow> digitRun 1 2 a \<and> digitRun 1 2 b | _ \<Rightarrow> False)"

definition reMonthDayYear2 :: "string \<Rightarrow> bool" where
  \<comment> \<open>\<^verbatim>\<open>/^\d{1,2}\/\d{1,2}\/\d{2}$/\<close>\<close>
  "reMonthDayYear2 v =
     (case splitOn CHR ''/'' v of
        [a, b, c] \<Rightarrow> digitRun 1 2 a \<and> digitRun 1 2 b \<and> digitRun 2 2 c
      | _ \<Rightarrow> False)"

definition reMonthDayYear4 :: "string \<Rightarrow> bool" where
  \<comment> \<open>\<^verbatim>\<open>/^\d{1,2}\/\d{1,2}\/\d{4}$/\<close>\<close>
  "reMonthDayYear4 v =
     (case splitOn CHR ''/'' v of
        [a, b, c] \<Rightarrow> digitRun 1 2 a \<and> digitRun 1 2 b \<and> digitRun 4 4 c
      | _ \<Rightarrow> False)"

text \<open>
  The range check that runs before any date is built:
  \<^verbatim>\<open>
  if (/^\d{1,2}\/\d{1,2}(\/\d{2,4})?$/.test(value)) {
    const parts = value.split('/');
    const month = parseInt(parts[0]);
    const day = parseInt(parts[1]);
    if (month < 1 || month > 12 || day < 1 || day > 31) {
      helpers.setError('Invalid date format');
      return;
    }
  }
  \<close>
\<close>

definition monthPart :: "string \<Rightarrow> int option" where
  "monthPart v = parseIntU (nthOpt (splitOn CHR ''/'' v) 0)"

definition dayPart :: "string \<Rightarrow> int option" where
  "dayPart v = parseIntU (nthOpt (splitOn CHR ''/'' v) 1)"

definition yearPart :: "string \<Rightarrow> int option" where
  "yearPart v = parseIntU (nthOpt (splitOn CHR ''/'' v) 2)"

definition outOfRange :: "string \<Rightarrow> bool" where
  "outOfRange v =
     (numLess (monthPart v) (Some 1) \<or> numLess (Some 12) (monthPart v)
      \<or> numLess (dayPart v) (Some 1) \<or> numLess (Some 31) (dayPart v))"

definition rangeRejected :: "string \<Rightarrow> bool" where
  "rangeRejected v = (reNumericDate v \<and> outOfRange v)"

text \<open>
  The chain that computes \<open>parsed\<close>:
  \<^verbatim>\<open>
  const currentYear = new Date().getFullYear();
  if (/^\d{1,2}\/\d{1,2}$/.test(value)) {
    const [month, day] = value.split('/');
    parsed = new Date(currentYear, parseInt(month) - 1, parseInt(day));
  } else if (/^\d{1,2}\/\d{1,2}\/\d{2}$/.test(value)) {
    const [month, day, year] = value.split('/');
    const fullYear = parseInt(year) + 2000;
    parsed = new Date(fullYear, parseInt(month) - 1, parseInt(day));
  } else if (/^\d{1,2}\/\d{1,2}\/\d{4}$/.test(value)) {
    const [month, day, year] = value.split('/');
    parsed = new Date(parseInt(year), parseInt(month) - 1, parseInt(day));
  } else {
    parsed = parse(value, 'P', new Date(), { locale: detectedLocale });
  }
  \<close>
\<close>

definition currentYear :: "env \<Rightarrow> int option" where
  "currentYear e = getFullYear (tza e) (Some (nowMs e))"

definition minusOne :: "int option \<Rightarrow> int option" where
  "minusOne n = map_option (\<lambda>x. x - 1) n"

definition typedDate :: "env \<Rightarrow> string \<Rightarrow> jsdate" where
  "typedDate e v =
     (if reMonthDay v then
        newDateLocal (tza e) (currentYear e) (minusOne (monthPart v)) (dayPart v)
      else if reMonthDayYear2 v then
        newDateLocal (tza e) (map_option (\<lambda>x. x + 2000) (yearPart v))
          (minusOne (monthPart v)) (dayPart v)
      else if reMonthDayYear4 v then
        newDateLocal (tza e) (yearPart v) (minusOne (monthPart v)) (dayPart v)
      else localeParse e v)"

subsection \<open>Form state and \<open>handleBlur\<close>\<close>

text \<open>
  The state the handlers change: Formik's field value, error and touched flag
  (\<open>helpers.setValue\<close>, \<open>setError\<close>, \<open>setTouched\<close>), the text shown in the input and the
  focus flag. An exception that leaves the handler is \<open>Inl\<close>.

  Formik is an imported library. Two of the calls do more than write a field:
  \<open>helpers.setTouched(true)\<close> and \<open>helpers.setValue(v, true)\<close> also start a validation
  run of the form (\<open>setTouched\<close> because \<open>validateOnBlur\<close> is on unless the form turns it
  off, which no form of the repository does). The run is asynchronous: Formik sets its
  \<open>isValidating\<close> flag, the handler goes on, and when the run ends Formik replaces the
  errors of the form by the result of the validator. \<open>helpers.setError\<close> starts no run.
  \<open>validationSettled\<close> is the end of the run: an error that the handler wrote with
  \<open>setError\<close> while the run was pending is overwritten. The validator sees the field
  value the handler leaves: the run that \<open>setValue\<close> starts gets the new value and ends
  last, and where only \<open>setTouched\<close> starts a run the value has not changed.
\<close>

record fstate =
  fieldValue :: "string option"
  fieldError :: "string option"
  fieldTouched :: bool
  inputValue :: string
  isFocused :: bool
  isValidating :: bool

datatype exn = RangeError

definition invalidFormat :: "fstate \<Rightarrow> fstate" where
  \<comment> \<open>\<open>helpers.setError('Invalid date format')\<close> and nothing else\<close>
  "invalidFormat s = s\<lparr>fieldError := Some ''Invalid date format''\<rparr>"

definition storeDate :: "env \<Rightarrow> jsdate \<Rightarrow> fstate \<Rightarrow> exn + fstate" where
  \<comment> \<open>\<open>const isoDate = d.toISOString(); helpers.setValue(isoDate, true);
      helpers.setError(undefined); setInputValue(format(d, 'P', { locale }))\<close>\<close>
  "storeDate e d s =
     (case toISOString d of
        None \<Rightarrow> Inl RangeError
      | Some isoDate \<Rightarrow>
          Inr (s\<lparr>fieldValue := Some isoDate, isValidating := True, fieldError := None,
                  inputValue := localeFormat e d\<rparr>))"

definition commitParsed :: "env \<Rightarrow> jsdate \<Rightarrow> fstate \<Rightarrow> exn + fstate" where
  \<comment> \<open>\<open>if (!isNaN(parsed.getTime())) { ... } else { helpers.setError('Invalid date format') }\<close>\<close>
  "commitParsed e parsed s =
     (if parsed \<noteq> None then storeDate e parsed s else Inr (invalidFormat s))"

definition blurred :: "fstate \<Rightarrow> fstate" where
  \<comment> \<open>\<open>setIsFocused(false); helpers.setTouched(true)\<close>, which starts a validation run\<close>
  "blurred s = s\<lparr>isFocused := False, fieldTouched := True, isValidating := True\<rparr>"

definition handleBlur :: "env \<Rightarrow> string \<Rightarrow> fstate \<Rightarrow> exn + fstate" where
  "handleBlur e raw s =
     (let s1 = blurred s;
          v = trim raw
      in if v = [] then
           Inr (s1\<lparr>fieldValue := None, isValidating := True, fieldError := None,
                   inputValue := []\<rparr>)
         else case parseShortcut e v of
                Some shortcutDate \<Rightarrow> storeDate e shortcutDate s1
              | None \<Rightarrow>
                  if rangeRejected v then Inr (invalidFormat s1)
                  else commitParsed e (typedDate e v) s1)"

definition validationSettled :: "env \<Rightarrow> fstate \<Rightarrow> fstate" where
  \<comment> \<open>the end of a pending validation run: the validator's result replaces the error\<close>
  "validationSettled e s =
     (if isValidating s
      then s\<lparr>isValidating := False, fieldError := validate e (fieldValue s)\<rparr>
      else s)"

definition afterBlur :: "env \<Rightarrow> string \<Rightarrow> fstate \<Rightarrow> exn + fstate" where
  \<comment> \<open>the form once the blur has been handled and the validation it started has ended\<close>
  "afterBlur e raw s =
     (case handleBlur e raw s of
        Inl x \<Rightarrow> Inl x
      | Inr s' \<Rightarrow> Inr (validationSettled e s'))"

text \<open>
  Typing only changes the text and clears an error that is set:
  \<^verbatim>\<open>
  setInputValue(newValue);
  if (meta.error) { helpers.setError(undefined); }
  \<close>
  The message is displayed when \<open>meta.touched && Boolean(meta.error)\<close>.
\<close>

definition truthy :: "string option \<Rightarrow> bool" where
  "truthy err = (case err of None \<Rightarrow> False | Some m \<Rightarrow> m \<noteq> [])"

definition handleInputChange :: "string \<Rightarrow> fstate \<Rightarrow> fstate" where
  "handleInputChange newValue s =
     (let s1 = s\<lparr>inputValue := newValue\<rparr>
      in if truthy (fieldError s) then s1\<lparr>fieldError := None\<rparr> else s1)"

definition errorState :: "fstate \<Rightarrow> bool" where
  "errorState s = (fieldTouched s \<and> truthy (fieldError s))"

section \<open>Properties of the string functions\<close>

subsection \<open>Digits and zero-padded numbers\<close>

lemma digitChar_isDigit: "isDigit (digitChar k)"
  by (simp add: digitChar_def isDigit_def)

lemma digit_cases:
  fixes k :: int
  assumes "0 \<le> k" "k \<le> 9"
  shows "k = 0 \<or> k = 1 \<or> k = 2 \<or> k = 3 \<or> k = 4 \<or> k = 5 \<or> k = 6 \<or> k = 7 \<or> k = 8 \<or> k = 9"
  using assms by arith

lemma digitVal_digitChar: "0 \<le> k \<Longrightarrow> k \<le> 9 \<Longrightarrow> digitVal (digitChar k) = k"
  using digit_cases [of k] by (auto simp: digitChar_def digitVal_def)

lemma digitChar_not_dash: "digitChar k \<noteq> CHR ''-''"
  by (simp add: digitChar_def)

lemma mod10_digit:
  fixes n :: int
  shows "0 \<le> n mod 10" and "n mod 10 \<le> 9"
  by simp_all

lemma digitVal_mod10: "digitVal (digitChar (n mod 10)) = n mod 10"
  by (rule digitVal_digitChar) (rule mod10_digit)+

lemma digitsValue_pad2:
  assumes "0 \<le> n" "n \<le> 99"
  shows "digitsValue (pad2 n) = n"
proof -
  have "digitsValue (pad2 n) = 10 * (n div 10 mod 10) + n mod 10"
    by (simp add: digitsValue_def pad2_def digitVal_mod10)
  moreover have "n div 10 mod 10 = n div 10" using assms by simp
  ultimately show ?thesis by simp
qed

lemma digitsValue_pad4:
  assumes "0 \<le> n" "n \<le> 9999"
  shows "digitsValue (pad4 n) = n"
proof -
  define a where "a = n div 10"
  define b where "b = a div 10"
  define c where "c = b div 10"
  define r0 where "r0 = n mod 10"
  define r1 where "r1 = a mod 10"
  define r2 where "r2 = b mod 10"
  have n: "n = 10 * a + r0" by (simp add: a_def r0_def)
  have a: "a = 10 * b + r1" by (simp add: b_def r1_def)
  have b: "b = 10 * c + r2" by (simp add: c_def r2_def)
  have b': "n div 100 = b" unfolding b_def a_def by (simp add: zdiv_zmult2_eq [symmetric])
  have c': "n div 1000 = c" unfolding c_def b_def a_def by (simp add: zdiv_zmult2_eq [symmetric])
  have "c < 10" using assms(2) unfolding c' [symmetric] by simp
  moreover have "0 \<le> c" using assms(1) unfolding c' [symmetric] by simp
  ultimately have cm: "c mod 10 = c" by simp
  have "digitsValue (pad4 n) = 10 * (10 * (10 * (c mod 10) + b mod 10) + a mod 10) + n mod 10"
    by (simp add: digitsValue_def pad4_def pad3_def digitVal_mod10 b' c' a_def [symmetric])
  also have "\<dots> = 10 * (10 * (10 * c + r2) + r1) + r0"
    by (simp only: cm r0_def r1_def r2_def)
  also have "\<dots> = 10 * (10 * b + r1) + r0" by (simp only: b [symmetric])
  also have "\<dots> = 10 * a + r0" by (simp only: a [symmetric])
  also have "\<dots> = n" by (simp only: n [symmetric])
  finally show ?thesis .
qed


subsection \<open>Splitting, trimming and the shortcut pattern\<close>

lemma splitOn_not_Nil: "splitOn sep s \<noteq> []"
  by (induction s) (auto split: list.splits)

lemma splitOn_no_sep: "sep \<notin> set s \<Longrightarrow> splitOn sep s = [s]"
  by (induction s) auto

lemma splitOn_append:
  "sep \<notin> set a \<Longrightarrow> splitOn sep (a @ sep # r) = a # splitOn sep r"
  by (induction a) (auto split: list.splits simp: splitOn_not_Nil)

lemma isDigit_not_slash: "isDigit c \<Longrightarrow> c \<noteq> CHR ''/''"
  by (auto simp: isDigit_def)

lemma isDigit_not_space: "isDigit c \<Longrightarrow> \<not> isSpace c"
  by (auto simp: isDigit_def isSpace_def)

lemma digitRun_no_slash: "digitRun lo hi a \<Longrightarrow> CHR ''/'' \<notin> set a"
  using isDigit_not_slash by (auto simp: digitRun_def list_all_iff)

lemma split2:
  assumes "digitRun l1 h1 a" "digitRun l2 h2 b"
  shows "splitOn CHR ''/'' (a @ CHR ''/'' # b) = [a, b]"
  using assms by (simp add: splitOn_append splitOn_no_sep digitRun_no_slash)

lemma split3:
  assumes "digitRun l1 h1 a" "digitRun l2 h2 b" "digitRun l3 h3 c"
  shows "splitOn CHR ''/'' (a @ CHR ''/'' # b @ CHR ''/'' # c) = [a, b, c]"
  using assms by (simp add: splitOn_append splitOn_no_sep digitRun_no_slash)

lemma parseInt_digits:
  assumes "digitRun lo hi a" "0 < lo"
  shows "parseInt a = Some (digitsValue a)"
proof -
  from assms obtain c r where a: "a = c # r" and c: "isDigit c" and r: "list_all isDigit r"
    by (cases a) (auto simp: digitRun_def)
  have ns: "\<not> isSpace c" using c by (rule isDigit_not_space)
  have sg: "c \<noteq> CHR ''-''" "c \<noteq> CHR ''+''" using c by (auto simp: isDigit_def)
  have tw: "takeWhile isDigit (c # r) = c # r"
    using c r by (simp add: list_all_iff)
  show ?thesis
    unfolding parseInt_def a using ns sg tw by (simp add: Let_def)
qed

lemma toNumber_digits: "digitRun lo hi a \<Longrightarrow> toNumber a = Some (digitsValue a)"
  by (simp add: toNumber_def digitRun_def)

lemma toLowerChar_slash: "toLowerChar CHR ''/'' = CHR ''/''"
  by (simp add: toLowerChar_def)

lemma dropWhile_keeps: "c \<in> set s \<Longrightarrow> \<not> P c \<Longrightarrow> c \<in> set (dropWhile P s)"
  by (induction s) auto

lemma trim_keeps: "c \<in> set s \<Longrightarrow> \<not> isSpace c \<Longrightarrow> c \<in> set (trim s)"
  unfolding trim_def by (simp add: dropWhile_keeps)

lemma slash_not_space: "\<not> isSpace CHR ''/''"
  by (simp add: isSpace_def)

lemma shortcutMatch_no_slash: "shortcutMatch t = Some x \<Longrightarrow> CHR ''/'' \<notin> set t"
proof (cases t)
  case Nil
  then show "shortcutMatch t = Some x \<Longrightarrow> CHR ''/'' \<notin> set t" by simp
next
  case (Cons c r)
  assume "shortcutMatch t = Some x"
  then have c: "c \<in> set ''dmy''" and r: "list_all isDigit r"
    unfolding Cons shortcutMatch_def by (auto split: if_splits)
  have "c \<noteq> CHR ''/''" using c by auto
  moreover have "CHR ''/'' \<notin> set r"
    using r isDigit_not_slash by (auto simp: list_all_iff)
  ultimately show "CHR ''/'' \<notin> set t" unfolding Cons by simp
qed

lemma slash_no_shortcut:
  assumes "CHR ''/'' \<in> set v"
  shows "parseShortcut e v = None"
proof -
  have "CHR ''/'' \<in> set (trim v)" using assms slash_not_space by (rule trim_keeps)
  then have "toLowerChar CHR ''/'' \<in> set (toLowerCase (trim v))"
    unfolding toLowerCase_def by simp
  then have "CHR ''/'' \<in> set (toLowerCase (trim v))" by (simp only: toLowerChar_slash)
  then have "shortcutMatch (toLowerCase (trim v)) = None"
    using shortcutMatch_no_slash [of "toLowerCase (trim v)"] by (cases "shortcutMatch (toLowerCase (trim v))") auto
  then show ?thesis by (simp add: parseShortcut_def)
qed

lemma trim_digit_ends:
  assumes "s \<noteq> []" "isDigit (hd s)" "isDigit (last s)"
  shows "trim s = s"
proof -
  from assms obtain c r where s: "s = c # r" by (cases s) auto
  have "\<not> isSpace c" using assms(2) s isDigit_not_space by simp
  then have d1: "dropWhile isSpace s = s" by (simp add: s)
  have "rev s \<noteq> []" using assms(1) by simp
  then obtain c' r' where rs: "rev s = c' # r'" by (cases "rev s") auto
  have "c' = last s" using rs assms(1) by (metis hd_rev list.sel(1))
  then have "\<not> isSpace c'" using assms(3) isDigit_not_space by simp
  then have d2: "dropWhile isSpace (rev s) = rev s" by (simp add: rs)
  show ?thesis unfolding trim_def d1 d2 by simp
qed

section \<open>Encoding and decoding dates\<close>

lemma MakeDay_range:
  assumes y: "100 \<le> y" "y \<le> 9999"
    and m: "0 \<le> m" "m < 12" and d: "1 \<le> d" "d \<le> daysInMonth y m"
  shows "- 683003 \<le> MakeDay y m d" and "MakeDay y m d < 2932897"
proof -
  have lo: "DayFromYear 100 \<le> DayFromYear y" using y(1) by (rule DayFromYear_mono)
  have hi: "DayFromYear (y + 1) \<le> DayFromYear 10000"
    using y(2) by (intro DayFromYear_mono) simp
  have l: "DayFromYear 100 = - 683003" by (simp add: DayFromYear_def)
  have h: "DayFromYear 10000 = 2932897" by (simp add: DayFromYear_def)
  have b1: "DayFromYear y \<le> MakeDay y m d"
    using yearDay_bounds(1) [OF m d] by (simp add: MakeDay_plain m)
  have b2: "MakeDay y m d < DayFromYear (y + 1)"
    using yearDay_bounds(2) [OF m d] by (simp add: MakeDay_plain m DayFromYear_Suc)
  show "- 683003 \<le> MakeDay y m d" using lo l b1 by linarith
  show "MakeDay y m d < 2932897" using hi h b2 by linarith
qed

lemma DateUTC_in_range:
  assumes y: "100 \<le> y" "y \<le> 9999"
    and m: "0 \<le> m" "m < 12" and d: "1 \<le> d" "d \<le> daysInMonth y m"
    and tod: "0 \<le> MakeTime h mi sec ms" "MakeTime h mi sec ms < msPerDay"
  shows "DateUTC y m d h mi sec ms = Some (MakeDate (MakeDay y m d) (MakeTime h mi sec ms))"
proof -
  have fy: "MakeFullYear y = y" using y(1) by (simp add: MakeFullYear_def)
  have "\<bar>MakeDate (MakeDay y m d) (MakeTime h mi sec ms)\<bar> \<le> 8640000000000000"
    using MakeDay_range [OF y m d] tod unfolding MakeDate_def msPerDay_def by linarith
  then show ?thesis by (simp add: DateUTC_def fy TimeClip_def)
qed

lemma midnight_clock:
  "HourFromTime (MakeDate day 0) = 0" "MinFromTime (MakeDate day 0) = 0"
  "SecFromTime (MakeDate day 0) = 0" "msFromTime (MakeDate day 0) = 0"
proof -
  have h: "MakeDate day 0 = (day * 24) * 3600000" by (simp add: MakeDate_def msPerDay_def)
  have mi: "MakeDate day 0 = (day * 1440) * 60000" by (simp add: MakeDate_def msPerDay_def)
  have s: "MakeDate day 0 = (day * 86400) * 1000" by (simp add: MakeDate_def msPerDay_def)
  show "HourFromTime (MakeDate day 0) = 0" unfolding HourFromTime_def h by simp
  show "MinFromTime (MakeDate day 0) = 0" unfolding MinFromTime_def mi by simp
  show "SecFromTime (MakeDate day 0) = 0" unfolding SecFromTime_def s by simp
  show "msFromTime (MakeDate day 0) = 0" unfolding msFromTime_def s by simp
qed

lemma toISOString_midnight:
  assumes y: "0 \<le> y" "y \<le> 9999"
    and m: "0 \<le> m" "m < 12" and d: "1 \<le> d" "d \<le> daysInMonth y m"
  shows "toISOString (Some (MakeDate (MakeDay y m d) 0)) =
           Some (pad4 y @ ''-'' @ pad2 (m + 1) @ ''-'' @ pad2 d @ ''T00:00:00.000Z'')"
proof -
  have z: "(0::int) \<le> 0" "(0::int) < msPerDay" by (simp_all add: msPerDay_def)
  note f = fields_of_MakeDate [OF m d z]
  have p2: "pad2 0 = ''00''" by (simp add: pad2_def digitChar_def)
  have p3: "pad3 0 = ''000''" by (simp add: pad3_def digitChar_def)
  show ?thesis
    using y by (simp add: toISOString_def f midnight_clock isoYear_def p2 p3)
qed

lemma encode_local_date:
  assumes ld: "localDate off t = (y, m, d)" and y: "100 \<le> y" "y \<le> 9999"
  shows "dateToISOString off (Some t) =
           Some (pad4 y @ ''-'' @ pad2 m @ ''-'' @ pad2 d @ ''T00:00:00.000Z'')"
proof -
  have fy: "YearFromTime (t + off) = y" and fm: "MonthFromTime (t + off) = m - 1"
    and fd: "DateFromTime (t + off) = d"
    using ld by (simp_all add: localDate_def)
  from fields_valid [of "t + off"]
  have m: "0 \<le> m - 1" "m - 1 < 12" and d: "1 \<le> d" "d \<le> daysInMonth y (m - 1)"
    unfolding fy fm fd by simp_all
  have z: "0 \<le> MakeTime 0 0 0 0" "MakeTime 0 0 0 0 < msPerDay"
    by (simp_all add: MakeTime_def msPerDay_def)
  have u: "DateUTC y (m - 1) d 0 0 0 0 = Some (MakeDate (MakeDay y (m - 1) d) 0)"
    using DateUTC_in_range [OF y m d z] by (simp add: MakeTime_def)
  have y0: "0 \<le> y" using y(1) by simp
  have "dateToISOString off (Some t) = toISOString (DateUTC y (m - 1) d 0 0 0 0)"
    by (simp add: dateToISOString_def getFullYear_def getMonth_def getDate_def fy fm fd)
  also have "\<dots> = Some (pad4 y @ ''-'' @ pad2 (m - 1 + 1) @ ''-'' @ pad2 d @ ''T00:00:00.000Z'')"
    unfolding u by (rule toISOString_midnight [OF y0 y(2) m d])
  finally show ?thesis by simp
qed

lemma toNumber_pad2:
  assumes "0 \<le> n" "n \<le> 99"
  shows "toNumber (pad2 n) = Some n"
proof -
  have "list_all isDigit (pad2 n)" by (simp add: pad2_def digitChar_isDigit)
  then show ?thesis
    by (simp only: toNumber_def digitsValue_pad2 [OF assms] if_True)
qed

lemma toNumber_pad4:
  assumes "0 \<le> n" "n \<le> 9999"
  shows "toNumber (pad4 n) = Some n"
proof -
  have "list_all isDigit (pad4 n)" by (simp add: pad4_def pad3_def digitChar_isDigit)
  then show ?thesis
    by (simp only: toNumber_def digitsValue_pad4 [OF assms] if_True)
qed

lemma split_formatted:
  "splitOn CHR ''-'' (pad4 y @ CHR ''-'' # pad2 m @ CHR ''-'' # pad2 d) = [pad4 y, pad2 m, pad2 d]"
  by (simp add: pad4_def pad3_def pad2_def digitChar_not_dash)

lemma isoDateMatch_formatted:
  "isoDateMatch (pad4 y @ CHR ''-'' # pad2 m @ CHR ''-'' # pad2 d @ rest) =
     Some (pad4 y @ CHR ''-'' # pad2 m @ CHR ''-'' # pad2 d)"
  by (simp add: isoDateMatch_def pad4_def pad3_def pad2_def digitChar_isDigit)

lemma decode_formatted:
  assumes "0 \<le> y" "y \<le> 9999" "0 \<le> m" "m \<le> 99" "0 \<le> d" "d \<le> 99"
  shows "parseDateFromISO (pad4 y @ ''-'' @ pad2 m @ ''-'' @ pad2 d @ rest) =
           Some (DateUTC y (m - 1) d 12 0 0 0)"
proof -
  have ne: "pad4 y @ ''-'' @ pad2 m @ ''-'' @ pad2 d @ rest \<noteq> []"
    by (simp add: pad4_def)
  show ?thesis
    using ne assms
    by (simp add: parseDateFromISO_def isoDateMatch_formatted split_formatted
        toNumber_pad2 toNumber_pad4 utcNoon_def)
qed

lemma noon_local_date:
  assumes m: "0 \<le> m" "m < 12" and d: "1 \<le> d" "d \<le> daysInMonth y m"
    and off: "- 43200000 \<le> off" "off < 43200000"
  shows "localDate off (MakeDate (MakeDay y m d) (MakeTime 12 0 0 0)) = (y, m + 1, d)"
proof -
  have e: "MakeDate (MakeDay y m d) (MakeTime 12 0 0 0) + off
      = MakeDate (MakeDay y m d) (43200000 + off)"
    by (simp add: MakeDate_def MakeTime_def)
  have tod: "0 \<le> 43200000 + off" "43200000 + off < msPerDay"
    using off by (simp_all add: msPerDay_def)
  show ?thesis
    unfolding localDate_def e by (simp add: fields_of_MakeDate [OF m d tod])
qed


section \<open>The typed-date patterns of \<open>handleBlur\<close>\<close>

lemma numLess_Some [simp]: "numLess (Some x) (Some y) = (x < y)"
  by (simp add: numLess_def)

lemma digitRun_widen:
  "digitRun lo hi a \<Longrightarrow> lo' \<le> lo \<Longrightarrow> hi \<le> hi' \<Longrightarrow> digitRun lo' hi' a"
  by (simp add: digitRun_def)

lemma digitRun_length: "digitRun n n c \<Longrightarrow> length c = n"
  by (simp add: digitRun_def)

text \<open>A month and a day, no year.\<close>

lemma md_parts:
  assumes a: "digitRun 1 2 a" and b: "digitRun 1 2 b"
  shows "splitOn CHR ''/'' (a @ CHR ''/'' # b) = [a, b]"
    and "reMonthDay (a @ CHR ''/'' # b)"
    and "reNumericDate (a @ CHR ''/'' # b)"
    and "monthPart (a @ CHR ''/'' # b) = Some (digitsValue a)"
    and "dayPart (a @ CHR ''/'' # b) = Some (digitsValue b)"
proof -
  show s: "splitOn CHR ''/'' (a @ CHR ''/'' # b) = [a, b]" by (rule split2 [OF a b])
  show "reMonthDay (a @ CHR ''/'' # b)" using a b by (simp add: reMonthDay_def s)
  show "reNumericDate (a @ CHR ''/'' # b)" using a b by (simp add: reNumericDate_def s)
  show "monthPart (a @ CHR ''/'' # b) = Some (digitsValue a)"
    by (simp add: monthPart_def s nthOpt_def parseIntU_def parseInt_digits [OF a])
  show "dayPart (a @ CHR ''/'' # b) = Some (digitsValue b)"
    by (simp add: dayPart_def s nthOpt_def parseIntU_def parseInt_digits [OF b])
qed

text \<open>A month, a day and a year.\<close>

lemma mdy_parts:
  assumes a: "digitRun 1 2 a" and b: "digitRun 1 2 b" and c: "digitRun lo hi c" "0 < lo"
  shows "splitOn CHR ''/'' (a @ CHR ''/'' # b @ CHR ''/'' # c) = [a, b, c]"
    and "\<not> reMonthDay (a @ CHR ''/'' # b @ CHR ''/'' # c)"
    and "reMonthDayYear2 (a @ CHR ''/'' # b @ CHR ''/'' # c) = digitRun 2 2 c"
    and "reMonthDayYear4 (a @ CHR ''/'' # b @ CHR ''/'' # c) = digitRun 4 4 c"
    and "reNumericDate (a @ CHR ''/'' # b @ CHR ''/'' # c) = digitRun 2 4 c"
    and "monthPart (a @ CHR ''/'' # b @ CHR ''/'' # c) = Some (digitsValue a)"
    and "dayPart (a @ CHR ''/'' # b @ CHR ''/'' # c) = Some (digitsValue b)"
    and "yearPart (a @ CHR ''/'' # b @ CHR ''/'' # c) = Some (digitsValue c)"
proof -
  let ?v = "a @ CHR ''/'' # b @ CHR ''/'' # c"
  show s: "splitOn CHR ''/'' ?v = [a, b, c]" by (rule split3 [OF a b c(1)])
  show "\<not> reMonthDay ?v" by (simp add: reMonthDay_def s)
  show "reMonthDayYear2 ?v = digitRun 2 2 c" using a b by (simp add: reMonthDayYear2_def s)
  show "reMonthDayYear4 ?v = digitRun 4 4 c" using a b by (simp add: reMonthDayYear4_def s)
  show "reNumericDate ?v = digitRun 2 4 c" using a b by (simp add: reNumericDate_def s)
  show "monthPart ?v = Some (digitsValue a)"
    by (simp add: monthPart_def s nthOpt_def parseIntU_def parseInt_digits [OF a])
  show "dayPart ?v = Some (digitsValue b)"
    by (simp add: dayPart_def s nthOpt_def parseIntU_def parseInt_digits [OF b])
  show "yearPart ?v = Some (digitsValue c)"
    by (simp add: yearPart_def s nthOpt_def parseIntU_def parseInt_digits [OF c])
qed

lemma handleBlur_typed:
  assumes "trim raw = v" "CHR ''/'' \<in> set v"
  shows "handleBlur e raw s =
           (if rangeRejected v then Inr (invalidFormat (blurred s))
            else commitParsed e (typedDate e v) (blurred s))"
proof -
  have ne: "v \<noteq> []" using assms(2) by auto
  have ns: "parseShortcut e v = None" using assms(2) by (rule slash_no_shortcut)
  show ?thesis by (simp add: handleBlur_def assms(1) ne ns Let_def)
qed

lemma blur_month_day:
  assumes a: "digitRun 1 2 a" and b: "digitRun 1 2 b" and v: "trim raw = a @ ''/'' @ b"
  shows "handleBlur e raw s =
           (if digitsValue a < 1 \<or> 12 < digitsValue a \<or> digitsValue b < 1 \<or> 31 < digitsValue b
            then Inr (invalidFormat (blurred s))
            else commitParsed e
                   (newDateLocal (tza e) (currentYear e) (Some (digitsValue a - 1))
                      (Some (digitsValue b)))
                   (blurred s))"
proof -
  let ?v = "a @ CHR ''/'' # b"
  have v': "trim raw = ?v" using v by simp
  have sl: "CHR ''/'' \<in> set ?v" by simp
  note p = md_parts [OF a b]
  have rr: "rangeRejected ?v =
      (digitsValue a < 1 \<or> 12 < digitsValue a \<or> digitsValue b < 1 \<or> 31 < digitsValue b)"
    by (simp add: rangeRejected_def outOfRange_def p)
  have td: "typedDate e ?v =
      newDateLocal (tza e) (currentYear e) (Some (digitsValue a - 1)) (Some (digitsValue b))"
    by (simp add: typedDate_def p minusOne_def)
  show ?thesis unfolding handleBlur_typed [OF v' sl] rr td ..
qed

lemma blur_month_day_year2:
  assumes a: "digitRun 1 2 a" and b: "digitRun 1 2 b" and c: "digitRun 2 2 c"
    and v: "trim raw = a @ ''/'' @ b @ ''/'' @ c"
  shows "handleBlur e raw s =
           (if digitsValue a < 1 \<or> 12 < digitsValue a \<or> digitsValue b < 1 \<or> 31 < digitsValue b
            then Inr (invalidFormat (blurred s))
            else commitParsed e
                   (newDateLocal (tza e) (Some (digitsValue c + 2000)) (Some (digitsValue a - 1))
                      (Some (digitsValue b)))
                   (blurred s))"
proof -
  let ?v = "a @ CHR ''/'' # b @ CHR ''/'' # c"
  have v': "trim raw = ?v" using v by simp
  have sl: "CHR ''/'' \<in> set ?v" by simp
  have c0: "(0::nat) < 2" by simp
  note p = mdy_parts [OF a b c c0]
  have c24: "digitRun 2 4 c" using c by (rule digitRun_widen) simp_all
  have rr: "rangeRejected ?v =
      (digitsValue a < 1 \<or> 12 < digitsValue a \<or> digitsValue b < 1 \<or> 31 < digitsValue b)"
    using c24 by (simp add: rangeRejected_def outOfRange_def p)
  have td: "typedDate e ?v =
      newDateLocal (tza e) (Some (digitsValue c + 2000)) (Some (digitsValue a - 1))
        (Some (digitsValue b))"
    using c by (simp add: typedDate_def p minusOne_def)
  show ?thesis unfolding handleBlur_typed [OF v' sl] rr td ..
qed

lemma blur_month_day_year4:
  assumes a: "digitRun 1 2 a" and b: "digitRun 1 2 b" and c: "digitRun 4 4 c"
    and v: "trim raw = a @ ''/'' @ b @ ''/'' @ c"
  shows "handleBlur e raw s =
           (if digitsValue a < 1 \<or> 12 < digitsValue a \<or> digitsValue b < 1 \<or> 31 < digitsValue b
            then Inr (invalidFormat (blurred s))
            else commitParsed e
                   (newDateLocal (tza e) (Some (digitsValue c)) (Some (digitsValue a - 1))
                      (Some (digitsValue b)))
                   (blurred s))"
proof -
  let ?v = "a @ CHR ''/'' # b @ CHR ''/'' # c"
  have v': "trim raw = ?v" using v by simp
  have sl: "CHR ''/'' \<in> set ?v" by simp
  have c0: "(0::nat) < 4" by simp
  note p = mdy_parts [OF a b c c0]
  have c24: "digitRun 2 4 c" using c by (rule digitRun_widen) simp_all
  have c22: "\<not> digitRun 2 2 c" using digitRun_length [OF c] by (simp add: digitRun_def)
  have rr: "rangeRejected ?v =
      (digitsValue a < 1 \<or> 12 < digitsValue a \<or> digitsValue b < 1 \<or> 31 < digitsValue b)"
    using c24 by (simp add: rangeRejected_def outOfRange_def p)
  have td: "typedDate e ?v =
      newDateLocal (tza e) (Some (digitsValue c)) (Some (digitsValue a - 1))
        (Some (digitsValue b))"
    using c c22 by (simp add: typedDate_def p minusOne_def)
  show ?thesis unfolding handleBlur_typed [OF v' sl] rr td ..
qed

lemma blur_fallback:
  assumes "trim raw \<noteq> []" "parseShortcut e (trim raw) = None"
    and "\<not> rangeRejected (trim raw)"
    and "\<not> reMonthDay (trim raw)" "\<not> reMonthDayYear2 (trim raw)"
      "\<not> reMonthDayYear4 (trim raw)"
  shows "handleBlur e raw s = commitParsed e (localeParse e (trim raw)) (blurred s)"
  using assms by (simp add: handleBlur_def typedDate_def Let_def)

section \<open>Worked examples\<close>

text \<open>
  An environment in India Standard Time, five and a half hours ahead of UTC, at
  2025-01-15T10:30:00Z, with a locale grammar that accepts nothing and a form without a
  validator (\<open>App.tsx\<close>), and a form that is blank and focused.
\<close>

definition indiaEnv :: env where
  "indiaEnv =
     \<lparr>tza = 19800000, nowMs = 1736937000000,
      localeParse = (\<lambda>v. None), localeFormat = (\<lambda>d. []), validate = (\<lambda>v. None)\<rparr>"

definition blankForm :: fstate where
  "blankForm =
     \<lparr>fieldValue = None, fieldError = None, fieldTouched = False,
      inputValue = [], isFocused = True, isValidating = False\<rparr>"

text \<open>
  The same environment with the validator of the test suites' form,
  \<^verbatim>\<open>if (!values.testDate) { errors.testDate = 'Date is required'; }\<close>
\<close>

definition wrapperValidate :: "string option \<Rightarrow> string option" where
  "wrapperValidate v =
     (case v of
        None \<Rightarrow> Some ''Date is required''
      | Some x \<Rightarrow> if x = [] then Some ''Date is required'' else None)"

definition wrapperEnv :: env where
  "wrapperEnv = indiaEnv\<lparr>validate := wrapperValidate\<rparr>"

text \<open>
  An environment in UTC whose locale writes the day first (\<open>dd/MM/yyyy\<close>, as \<open>en-GB\<close>):
  its grammar reads \<open>13/5/123\<close> as 13 May 123. Only this text is needed.
\<close>

definition dayFirstEnv :: env where
  "dayFirstEnv =
     \<lparr>tza = 0, nowMs = 1736937000000,
      localeParse = (\<lambda>v. if v = ''13/5/123'' then Some (- 58274294400000) else None),
      localeFormat = (\<lambda>d. []), validate = (\<lambda>v. None)\<rparr>"

text \<open>
  Reading a concrete time value: once it is written as a day built by \<open>MakeDay\<close> plus a
  time of day, its printed form follows from the fields.
\<close>

lemma toISOString_of_fields:
  assumes "t = MakeDate (MakeDay y m d) tod"
    and "0 \<le> m" "m < 12" "1 \<le> d" "d \<le> daysInMonth y m" "0 \<le> tod" "tod < msPerDay"
  shows "toISOString (Some t) =
           Some (isoYear y @ ''-'' @ pad2 (m + 1) @ ''-'' @ pad2 d @ ''T''
                 @ pad2 (HourFromTime t) @ '':'' @ pad2 (MinFromTime t) @ '':''
                 @ pad2 (SecFromTime t) @ ''.'' @ pad3 (msFromTime t) @ ''Z'')"
  using fields_of_MakeDate [OF assms(2-7)] unfolding assms(1) [symmetric]
  by (simp add: toISOString_def)

lemma localDate_of_fields:
  assumes "t + off = MakeDate (MakeDay y m d) tod"
    and "0 \<le> m" "m < 12" "1 \<le> d" "d \<le> daysInMonth y m" "0 \<le> tod" "tod < msPerDay"
  shows "localDate off t = (y, m + 1, d)"
  using fields_of_MakeDate [OF assms(2-7)] unfolding assms(1) [symmetric]
  by (simp add: localDate_def)

lemmas calendar_eval =
  MakeDate_def MakeDay_def MakeTime_def DayFromYear_def monthStart_def leapDays_def
  DaysInYear_def daysInMonth_def msPerDay_def

lemmas clock_eval =
  HourFromTime_def MinFromTime_def SecFromTime_def msFromTime_def
  isoYear_def pad2_def pad3_def pad4_def pad6_def digitChar_def

lemma iso_2023_04_04: "toISOString (Some 1680633000000) = Some ''2023-04-04T18:30:00.000Z''"
  using toISOString_of_fields [of 1680633000000 2023 3 4 66600000]
  by (simp add: calendar_eval clock_eval)

lemma iso_2025_07_07: "toISOString (Some 1751913000000) = Some ''2025-07-07T18:30:00.000Z''"
  using toISOString_of_fields [of 1751913000000 2025 6 7 66600000]
  by (simp add: calendar_eval clock_eval)

lemma iso_2025_01_15: "toISOString (Some 1736937000000) = Some ''2025-01-15T10:30:00.000Z''"
  using toISOString_of_fields [of 1736937000000 2025 0 15 37800000]
  by (simp add: calendar_eval clock_eval)

lemma local_2025_01_15: "localDate 19800000 1736937000000 = (2025, 1, 15)"
  using localDate_of_fields [of 1736937000000 19800000 2025 0 15 57600000]
  by (simp add: calendar_eval)

section \<open>Shortcut tokens resolve against now\<close>

lemma TimeClip_valid: "\<bar>t\<bar> \<le> 8640000000000000 \<Longrightarrow> TimeClip t = Some t"
  by (simp add: TimeClip_def)

lemma MakeDate_Day: "MakeDate (Day t) (TimeWithinDay t) = t"
  by (simp add: MakeDate_def Day_def TimeWithinDay_def)

lemma validDate_localDate: "validDate (localDate off t)"
  using fields_valid [of "t + off"] by (simp add: validDate_def localDate_def)

lemma withLocalDay_same:
  assumes "\<bar>t\<bar> \<le> 8640000000000000"
  shows "withLocalDay off t (localDate off t) = Some t"
proof -
  have "MakeDate (MakeDay (YearFromTime (t + off)) (MonthFromTime (t + off))
          (DateFromTime (t + off))) (TimeWithinDay (t + off)) = t + off"
    unfolding MakeDay_fields by (rule MakeDate_Day)
  then show ?thesis
    using assms by (simp add: withLocalDay_def localDate_def TimeClip_valid)
qed

lemma shiftMonth_zero:
  assumes "validDate cd"
  shows "shiftMonth cd 0 = cd"
proof -
  obtain y m d where cd: "cd = (y, m, d)" by (cases cd)
  have m: "1 \<le> m" "m \<le> 12" and d: "d \<le> daysInMonth y (m - 1)"
    using assms by (simp_all add: validDate_def cd)
  have r: "0 \<le> m - 1" "m - 1 < 12" using m by simp_all
  have q: "(m - 1) div 12 = 0" using r by simp
  have p: "(m - 1) mod 12 = m - 1" using r by simp
  show ?thesis
    using d by (simp add: shiftMonth_def cd Let_def q p)
qed

lemma dayjsAdd_zero:
  assumes "\<bar>t\<bar> \<le> 8640000000000000"
  shows "dayjsAdd off (Some t) (Some 0) u = Some t"
proof (cases u)
  case UnitDay
  obtain y m d where ld: "localDate off t = (y, m, d)" by (cases "localDate off t")
  have "withLocalDay off t (y, m, d) = Some t"
    using withLocalDay_same [OF assms, of off] by (simp add: ld)
  then show ?thesis by (simp add: dayjsAdd_def UnitDay ld)
next
  case UnitMonth
  show ?thesis
    by (simp add: dayjsAdd_def UnitMonth addMonths_def
        shiftMonth_zero [OF validDate_localDate] withLocalDay_same [OF assms])
next
  case UnitYear
  show ?thesis
    by (simp add: dayjsAdd_def UnitYear addMonths_def
        shiftMonth_zero [OF validDate_localDate] withLocalDay_same [OF assms])
qed

lemma parseShortcut_None_iff:
  "parseShortcut e input = None \<longleftrightarrow> shortcutMatch (toLowerCase (trim input)) = None"
proof (cases "shortcutMatch (toLowerCase (trim input))")
  case None
  then show ?thesis by (simp add: parseShortcut_def)
next
  case (Some x)
  obtain c r where x: "x = (c, r)" by (cases x)
  have "toLowerCase (trim input) \<noteq> []" using Some by (auto simp: shortcutMatch_def)
  then obtain c' r' where t: "toLowerCase (trim input) = c' # r'"
    by (cases "toLowerCase (trim input)") auto
  have "c' \<in> set ''dmy''" and "c = c'"
    using Some unfolding t x shortcutMatch_def by (auto split: if_splits)
  then have "c = CHR ''d'' \<or> c = CHR ''m'' \<or> c = CHR ''y''" by auto
  then show ?thesis by (auto simp: parseShortcut_def Some x Let_def)
qed

lemma parseShortcut_bare:
  assumes now: "\<bar>nowMs e\<bar> \<le> 8640000000000000"
    and t: "toLowerCase (trim input) \<in> {''d'', ''m'', ''y''}"
  shows "parseShortcut e input = Some (Some (nowMs e))"
proof -
  have z: "\<And>u. dayjsAdd (tza e) (Some (nowMs e)) (Some 0) u = Some (nowMs e)"
    by (rule dayjsAdd_zero [OF now])
  show ?thesis using t by (auto simp: parseShortcut_def shortcutMatch_def z)
qed

text \<open>
  C4. \<open>parseShortcut\<close> trims and lowercases its input and matches it against
  \<^verbatim>\<open>^([dmy])(\d*)$\<close>. With no digits the count is 0, so \<open>d\<close>, \<open>m\<close> and \<open>y\<close> alone
  (in either case, with surrounding white space) each give the current instant, whose
  date is today; the result is \<open>null\<close> exactly when the pattern does not match.
\<close>

theorem shortcut_without_digits_is_today:
  assumes now: "\<bar>nowMs e\<bar> \<le> 8640000000000000"
  shows "(toLowerCase (trim input) \<in> {''d'', ''m'', ''y''}
            \<longrightarrow> parseShortcut e input = Some (Some (nowMs e)))
         \<and> (parseShortcut e input = None
              \<longleftrightarrow> shortcutMatch (toLowerCase (trim input)) = None)"
  using parseShortcut_bare [OF now, of input] parseShortcut_None_iff [of e input] by blast

theorem shortcut_without_digits_is_today_witness:
  "parseShortcut indiaEnv '' D '' = Some (Some 1736937000000)
   \<and> parseShortcut indiaEnv ''m'' = Some (Some 1736937000000)
   \<and> parseShortcut indiaEnv ''y'' = Some (Some 1736937000000)
   \<and> localDate 19800000 1736937000000 = (2025, 1, 15)
   \<and> parseShortcut indiaEnv ''4/5'' = None"
proof -
  have now: "\<bar>nowMs indiaEnv\<bar> \<le> 8640000000000000" by (simp add: indiaEnv_def)
  have n: "nowMs indiaEnv = 1736937000000" by (simp add: indiaEnv_def)
  have d: "toLowerCase (trim '' D '') \<in> {''d'', ''m'', ''y''}"
    by (simp add: trim_def isSpace_def toLowerCase_def toLowerChar_def)
  have m: "toLowerCase (trim ''m'') \<in> {''d'', ''m'', ''y''}"
    by (simp add: trim_def isSpace_def toLowerCase_def toLowerChar_def)
  have y: "toLowerCase (trim ''y'') \<in> {''d'', ''m'', ''y''}"
    by (simp add: trim_def isSpace_def toLowerCase_def toLowerChar_def)
  have q: "shortcutMatch (toLowerCase (trim ''4/5'')) = None"
    by (simp add: trim_def isSpace_def toLowerCase_def toLowerChar_def shortcutMatch_def)
  from shortcut_without_digits_is_today [OF now, of "'' D ''"] d
  have 1: "parseShortcut indiaEnv '' D '' = Some (Some 1736937000000)" unfolding n by blast
  from shortcut_without_digits_is_today [OF now, of "''m''"] m
  have 2: "parseShortcut indiaEnv ''m'' = Some (Some 1736937000000)" unfolding n by blast
  from shortcut_without_digits_is_today [OF now, of "''y''"] y
  have 3: "parseShortcut indiaEnv ''y'' = Some (Some 1736937000000)" unfolding n by blast
  from shortcut_without_digits_is_today [OF now, of "''4/5''"] q
  have 4: "parseShortcut indiaEnv ''4/5'' = None" by blast
  from 1 2 3 4 local_2025_01_15 show ?thesis by blast
qed

section \<open>Committing typed text\<close>

text \<open>
  What \<open>handleBlur\<close> leaves when it has a \<open>parsed\<close> date in hand, written out on the
  fields of the form. A valid \<open>Date\<close> always prints, so \<open>toISOString\<close> does not throw.
\<close>

lemma storeDate_Some:
  "storeDate e (Some t) s =
     Inr (s\<lparr>fieldValue := toISOString (Some t), isValidating := True, fieldError := None,
            inputValue := localeFormat e (Some t)\<rparr>)"
  by (simp add: storeDate_def toISOString_def)

lemma invalidFormat_blurred:
  "invalidFormat (blurred s) =
     s\<lparr>isFocused := False, fieldTouched := True, isValidating := True,
       fieldError := Some ''Invalid date format''\<rparr>"
  by (simp add: invalidFormat_def blurred_def)

lemma commitParsed_outcome:
  "commitParsed e D (blurred s) =
     (case D of
        None \<Rightarrow>
          Inr (s\<lparr>isFocused := False, fieldTouched := True, isValidating := True,
                 fieldError := Some ''Invalid date format''\<rparr>)
      | Some t \<Rightarrow>
          Inr (s\<lparr>isFocused := False, fieldTouched := True, isValidating := True,
                 fieldValue := toISOString (Some t), fieldError := None,
                 inputValue := localeFormat e (Some t)\<rparr>))"
proof (cases D)
  case None
  then show ?thesis by (simp add: commitParsed_def invalidFormat_blurred)
next
  case (Some t)
  then show ?thesis by (simp add: commitParsed_def storeDate_Some blurred_def)
qed

lemma newDateLocal_explicit:
  "newDateLocal off (Some y) (Some m) (Some d) =
     TimeClip (MakeDate (MakeDay (if 0 \<le> y \<and> y \<le> 99 then 1900 + y else y) m d) 0 - off)"
  by (simp add: newDateLocal_def MakeFullYear_def MakeTime_def)

lemma currentYear_explicit: "currentYear e = Some (YearFromTime (nowMs e + tza e))"
  by (simp add: currentYear_def getFullYear_def)

lemma storeDate_localeParse:
  "storeDate (e\<lparr>localeParse := lp\<rparr>) d s = storeDate e d s"
  by (simp add: storeDate_def split: option.splits)

lemma commitParsed_localeParse:
  "commitParsed (e\<lparr>localeParse := lp\<rparr>) d s = commitParsed e d s"
  by (simp add: commitParsed_def storeDate_localeParse)

lemma currentYear_localeParse: "currentYear (e\<lparr>localeParse := lp\<rparr>) = currentYear e"
  by (simp add: currentYear_def)

text \<open>
  A three-digit year passes the pattern of the range check, \<open>\d{2,4}\<close>, and matches none
  of the three patterns that build a date.
\<close>

lemma blur_month_day_year3:
  assumes a: "digitRun 1 2 a" and b: "digitRun 1 2 b" and c: "digitRun 3 3 c"
    and v: "trim raw = a @ ''/'' @ b @ ''/'' @ c"
  shows "handleBlur e raw s =
           (if digitsValue a < 1 \<or> 12 < digitsValue a \<or> digitsValue b < 1 \<or> 31 < digitsValue b
            then Inr (invalidFormat (blurred s))
            else commitParsed e (localeParse e (trim raw)) (blurred s))"
proof -
  let ?v = "a @ CHR ''/'' # b @ CHR ''/'' # c"
  have v': "trim raw = ?v" using v by simp
  have sl: "CHR ''/'' \<in> set ?v" by simp
  have c0: "(0::nat) < 3" by simp
  note p = mdy_parts [OF a b c c0]
  have c24: "digitRun 2 4 c" using c by (rule digitRun_widen) simp_all
  have c22: "\<not> digitRun 2 2 c" using digitRun_length [OF c] by (simp add: digitRun_def)
  have c44: "\<not> digitRun 4 4 c" using digitRun_length [OF c] by (simp add: digitRun_def)
  have rr: "rangeRejected ?v =
      (digitsValue a < 1 \<or> 12 < digitsValue a \<or> digitsValue b < 1 \<or> 31 < digitsValue b)"
    using c24 by (simp add: rangeRejected_def outOfRange_def p)
  have td: "typedDate e ?v = localeParse e ?v"
    using c22 c44 by (simp add: typedDate_def p)
  show ?thesis unfolding handleBlur_typed [OF v' sl] rr td v' ..
qed

lemma head_patterns_are_numeric:
  "reMonthDay v \<Longrightarrow> reNumericDate v"
  "reMonthDayYear2 v \<Longrightarrow> reNumericDate v"
  "reMonthDayYear4 v \<Longrightarrow> reNumericDate v"
  by (auto simp: reMonthDay_def reMonthDayYear2_def reMonthDayYear4_def reNumericDate_def
      digitRun_def split: list.splits)

lemma blur_not_numeric:
  assumes "trim raw \<noteq> []" "parseShortcut e (trim raw) = None"
    and "\<not> reNumericDate (trim raw)"
  shows "handleBlur e raw s = commitParsed e (localeParse e (trim raw)) (blurred s)"
proof -
  have "\<not> rangeRejected (trim raw)" using assms(3) by (simp add: rangeRejected_def)
  moreover have "\<not> reMonthDay (trim raw)" "\<not> reMonthDayYear2 (trim raw)"
    "\<not> reMonthDayYear4 (trim raw)"
    using assms(3) head_patterns_are_numeric by blast+
  ultimately show ?thesis by (intro blur_fallback assms(1,2))
qed

text \<open>
  C5, amended. The typed-text parser of \<open>handleBlur\<close> (\<open>date-picker-component.tsx\<close>), on
  the trimmed text, with every outcome written out on the fields of the form at the
  moment the handler returns: the validation run that the blur started is still
  pending, and what it leaves of the error is the subject of the section on failed
  commits. \<open>failed\<close> is the outcome with the error \<open>Invalid date format\<close> set and nothing
  else changed, \<open>stored t\<close> the one with the date \<open>t\<close> stored, and \<open>built year\<close> is
  \<open>new Date(year, month - 1, day)\<close> committed: a \<open>year\<close> from 0 to 99 is read as 1900 plus
  that year, and a day that the month does not have runs on into the next month.

  \<^item> Month and day alone build the date in the current year.
  \<^item> With a two-digit year the year is 2000 plus its value.
  \<^item> With a four-digit year it is the year as written, except that 0000 to 0099 is read
    as 1900 to 1999.
  \<^item> In these three forms a month outside 1..12 or a day outside 1..31 ends in
    \<open>failed\<close>, and the outcome does not depend on the grammar of the locale.
  \<^item> A three-digit year matches none of the three forms. The range check still applies
    to it: with a month or day out of range the outcome is \<open>failed\<close> and the grammar of
    the locale is not tried; in range the text goes to the grammar of the locale.
  \<^item> Any other text that is not empty and not a shortcut goes to the grammar of the
    locale.
\<close>

theorem typed_text_grammars_in_order:
  fixes e :: env and s :: fstate and raw a b :: string
    and mo da :: int and bad :: bool and failed :: "exn + fstate"
    and stored :: "int \<Rightarrow> exn + fstate" and built :: "int \<Rightarrow> exn + fstate"
    and byLocale :: "exn + fstate"
  defines "mo \<equiv> digitsValue a" and "da \<equiv> digitsValue b"
    and "bad \<equiv> mo < 1 \<or> 12 < mo \<or> da < 1 \<or> 31 < da"
    and "failed \<equiv>
           Inr (s\<lparr>isFocused := False, fieldTouched := True, isValidating := True,
                  fieldError := Some ''Invalid date format''\<rparr>)"
    and "stored \<equiv> \<lambda>t.
           Inr (s\<lparr>isFocused := False, fieldTouched := True, isValidating := True,
                  fieldValue := toISOString (Some t), fieldError := None,
                  inputValue := localeFormat e (Some t)\<rparr>)"
    and "built \<equiv> \<lambda>year.
           (case TimeClip (MakeDate (MakeDay (if 0 \<le> year \<and> year \<le> 99 then 1900 + year
                                              else year) (mo - 1) da) 0 - tza e) of
              None \<Rightarrow> failed
            | Some t \<Rightarrow> stored t)"
    and "byLocale \<equiv> (case localeParse e (trim raw) of None \<Rightarrow> failed | Some t \<Rightarrow> stored t)"
  assumes a: "digitRun 1 2 a" and b: "digitRun 1 2 b"
  shows "(trim raw = a @ ''/'' @ b \<longrightarrow>
           handleBlur e raw s =
             (if bad then failed else built (YearFromTime (nowMs e + tza e)))
           \<and> (\<forall>lp. handleBlur (e\<lparr>localeParse := lp\<rparr>) raw s = handleBlur e raw s))
       \<and> (\<forall>c. digitRun 2 2 c \<and> trim raw = a @ ''/'' @ b @ ''/'' @ c \<longrightarrow>
           handleBlur e raw s = (if bad then failed else built (digitsValue c + 2000))
           \<and> (\<forall>lp. handleBlur (e\<lparr>localeParse := lp\<rparr>) raw s = handleBlur e raw s))
       \<and> (\<forall>c. digitRun 4 4 c \<and> trim raw = a @ ''/'' @ b @ ''/'' @ c \<longrightarrow>
           handleBlur e raw s = (if bad then failed else built (digitsValue c))
           \<and> (\<forall>lp. handleBlur (e\<lparr>localeParse := lp\<rparr>) raw s = handleBlur e raw s))
       \<and> (\<forall>c. digitRun 3 3 c \<and> trim raw = a @ ''/'' @ b @ ''/'' @ c \<longrightarrow>
           handleBlur e raw s = (if bad then failed else byLocale)
           \<and> (bad \<longrightarrow> (\<forall>lp. handleBlur (e\<lparr>localeParse := lp\<rparr>) raw s = failed)))
       \<and> (trim raw \<noteq> [] \<and> parseShortcut e (trim raw) = None
           \<and> \<not> reNumericDate (trim raw) \<longrightarrow>
           handleBlur e raw s = byLocale)"
proof (intro conjI allI impI)
  assume v: "trim raw = a @ ''/'' @ b"
  show "handleBlur e raw s = (if bad then failed else built (YearFromTime (nowMs e + tza e)))"
    unfolding blur_month_day [OF a b v] built_def stored_def failed_def bad_def mo_def da_def
    by (simp add: commitParsed_outcome currentYear_explicit newDateLocal_explicit
        invalidFormat_blurred)
  fix lp
  show "handleBlur (e\<lparr>localeParse := lp\<rparr>) raw s = handleBlur e raw s"
    unfolding blur_month_day [OF a b v]
    by (simp add: commitParsed_localeParse currentYear_localeParse)
next
  fix c
  assume h: "digitRun 2 2 c \<and> trim raw = a @ ''/'' @ b @ ''/'' @ c"
  then have c: "digitRun 2 2 c" and v: "trim raw = a @ ''/'' @ b @ ''/'' @ c" by simp_all
  show "handleBlur e raw s = (if bad then failed else built (digitsValue c + 2000))"
    unfolding blur_month_day_year2 [OF a b c v] built_def stored_def failed_def bad_def
      mo_def da_def
    by (simp add: commitParsed_outcome newDateLocal_explicit invalidFormat_blurred)
  fix lp
  show "handleBlur (e\<lparr>localeParse := lp\<rparr>) raw s = handleBlur e raw s"
    unfolding blur_month_day_year2 [OF a b c v]
    by (simp add: commitParsed_localeParse)
next
  fix c
  assume h: "digitRun 4 4 c \<and> trim raw = a @ ''/'' @ b @ ''/'' @ c"
  then have c: "digitRun 4 4 c" and v: "trim raw = a @ ''/'' @ b @ ''/'' @ c" by simp_all
  show "handleBlur e raw s = (if bad then failed else built (digitsValue c))"
    unfolding blur_month_day_year4 [OF a b c v] built_def stored_def failed_def bad_def
      mo_def da_def
    by (simp add: commitParsed_outcome newDateLocal_explicit invalidFormat_blurred)
  fix lp
  show "handleBlur (e\<lparr>localeParse := lp\<rparr>) raw s = handleBlur e raw s"
    unfolding blur_month_day_year4 [OF a b c v]
    by (simp add: commitParsed_localeParse)
next
  fix c
  assume h: "digitRun 3 3 c \<and> trim raw = a @ ''/'' @ b @ ''/'' @ c"
  then have c: "digitRun 3 3 c" and v: "trim raw = a @ ''/'' @ b @ ''/'' @ c" by simp_all
  show "handleBlur e raw s = (if bad then failed else byLocale)"
    unfolding blur_month_day_year3 [OF a b c v] byLocale_def stored_def failed_def bad_def
      mo_def da_def
    by (simp add: commitParsed_outcome invalidFormat_blurred)
  assume bad
  fix lp
  from \<open>bad\<close> show "handleBlur (e\<lparr>localeParse := lp\<rparr>) raw s = failed"
    unfolding blur_month_day_year3 [OF a b c v] failed_def bad_def mo_def da_def
    by (simp add: invalidFormat_blurred)
next
  assume "trim raw \<noteq> [] \<and> parseShortcut e (trim raw) = None \<and> \<not> reNumericDate (trim raw)"
  then have "handleBlur e raw s = commitParsed e (localeParse e (trim raw)) (blurred s)"
    by (intro blur_not_numeric) simp_all
  then show "handleBlur e raw s = byLocale"
    unfolding byLocale_def stored_def failed_def by (simp add: commitParsed_outcome)
qed

lemmas string_eval =
  trim_def isSpace_def toLowerCase_def toLowerChar_def digitRun_def isDigit_def
  digitsValue_def digitVal_def

lemma iso_2025_04_04: "toISOString (Some 1743791400000) = Some ''2025-04-04T18:30:00.000Z''"
  using toISOString_of_fields [of 1743791400000 2025 3 4 66600000]
  by (simp add: calendar_eval clock_eval)

lemma iso_epoch: "toISOString (Some 0) = Some ''1970-01-01T00:00:00.000Z''"
  using toISOString_of_fields [of 0 1970 0 1 0]
  by (simp add: calendar_eval clock_eval)

lemma year_of_now: "YearFromTime 1736956800000 = 2025"
  using local_2025_01_15 by (simp add: localDate_def)

theorem typed_text_grammars_in_order_witness:
  "handleBlur indiaEnv ''4/5'' (blankForm\<lparr>inputValue := ''4/5''\<rparr>) =
     Inr \<lparr>fieldValue = Some ''2025-04-04T18:30:00.000Z'', fieldError = None,
          fieldTouched = True, inputValue = [], isFocused = False, isValidating = True\<rparr>
   \<and> handleBlur indiaEnv ''4/5/23'' (blankForm\<lparr>inputValue := ''4/5/23''\<rparr>) =
     Inr \<lparr>fieldValue = Some ''2023-04-04T18:30:00.000Z'', fieldError = None,
          fieldTouched = True, inputValue = [], isFocused = False, isValidating = True\<rparr>
   \<and> handleBlur (indiaEnv\<lparr>localeParse := (\<lambda>v. Some 0)\<rparr>) ''4/5/23''
         (blankForm\<lparr>inputValue := ''4/5/23''\<rparr>) =
       handleBlur indiaEnv ''4/5/23'' (blankForm\<lparr>inputValue := ''4/5/23''\<rparr>)
   \<and> handleBlur indiaEnv ''4/5/2025'' (blankForm\<lparr>inputValue := ''4/5/2025''\<rparr>) =
     Inr \<lparr>fieldValue = Some ''2025-04-04T18:30:00.000Z'', fieldError = None,
          fieldTouched = True, inputValue = [], isFocused = False, isValidating = True\<rparr>
   \<and> handleBlur indiaEnv ''13/5/2025'' (blankForm\<lparr>inputValue := ''13/5/2025''\<rparr>) =
     Inr \<lparr>fieldValue = None, fieldError = Some ''Invalid date format'',
          fieldTouched = True, inputValue = ''13/5/2025'', isFocused = False,
          isValidating = True\<rparr>
   \<and> handleBlur (indiaEnv\<lparr>localeParse := (\<lambda>v. Some 0)\<rparr>) ''4/5/123''
         (blankForm\<lparr>inputValue := ''4/5/123''\<rparr>) =
     Inr \<lparr>fieldValue = Some ''1970-01-01T00:00:00.000Z'', fieldError = None,
          fieldTouched = True, inputValue = [], isFocused = False, isValidating = True\<rparr>
   \<and> handleBlur indiaEnv ''next friday'' (blankForm\<lparr>inputValue := ''next friday''\<rparr>) =
     Inr \<lparr>fieldValue = None, fieldError = Some ''Invalid date format'',
          fieldTouched = True, inputValue = ''next friday'', isFocused = False,
          isValidating = True\<rparr>"
proof -
  have a: "digitRun 1 2 ''4''" and b: "digitRun 1 2 ''5''" and a': "digitRun 1 2 ''13''"
    and c2: "digitRun 2 2 ''23''" and c3: "digitRun 3 3 ''123''" and c4: "digitRun 4 4 ''2025''"
    by (simp_all add: string_eval)
  have n: "digitsValue ''4'' = 4" "digitsValue ''5'' = 5" "digitsValue ''13'' = 13"
    "digitsValue ''23'' = 23" "digitsValue ''2025'' = 2025"
    by (simp_all add: string_eval)
  have d25: "TimeClip (MakeDate (MakeDay 2025 3 5) 0 - 19800000) = Some 1743791400000"
    and d23: "TimeClip (MakeDate (MakeDay 2023 3 5) 0 - 19800000) = Some 1680633000000"
    by (simp_all add: TimeClip_def calendar_eval)
  have v1: "trim ''4/5'' = ''4'' @ ''/'' @ ''5''"
    and v2: "trim ''4/5/23'' = ''4'' @ ''/'' @ ''5'' @ ''/'' @ ''23''"
    and v3: "trim ''4/5/123'' = ''4'' @ ''/'' @ ''5'' @ ''/'' @ ''123''"
    and v4: "trim ''4/5/2025'' = ''4'' @ ''/'' @ ''5'' @ ''/'' @ ''2025''"
    and v5: "trim ''13/5/2025'' = ''13'' @ ''/'' @ ''5'' @ ''/'' @ ''2025''"
    and v6: "trim ''next friday'' = ''next friday''"
    by (simp_all add: string_eval)
  note g = typed_text_grammars_in_order
  have 1: "handleBlur indiaEnv ''4/5'' (blankForm\<lparr>inputValue := ''4/5''\<rparr>) =
      Inr \<lparr>fieldValue = Some ''2025-04-04T18:30:00.000Z'', fieldError = None,
           fieldTouched = True, inputValue = [], isFocused = False, isValidating = True\<rparr>"
    unfolding g [OF a b, THEN conjunct1, THEN mp, OF v1, THEN conjunct1] n
    by (simp add: indiaEnv_def blankForm_def year_of_now d25 iso_2025_04_04)
  have 2: "handleBlur indiaEnv ''4/5/23'' (blankForm\<lparr>inputValue := ''4/5/23''\<rparr>) =
      Inr \<lparr>fieldValue = Some ''2023-04-04T18:30:00.000Z'', fieldError = None,
           fieldTouched = True, inputValue = [], isFocused = False, isValidating = True\<rparr>"
    unfolding g [OF a b, THEN conjunct2, THEN conjunct1, THEN spec [where x = "''23''"],
        THEN mp, OF conjI [OF c2 v2], THEN conjunct1] n
    by (simp add: indiaEnv_def blankForm_def d23 iso_2023_04_04)
  have 3: "handleBlur (indiaEnv\<lparr>localeParse := (\<lambda>v. Some 0)\<rparr>) ''4/5/23''
        (blankForm\<lparr>inputValue := ''4/5/23''\<rparr>) =
      handleBlur indiaEnv ''4/5/23'' (blankForm\<lparr>inputValue := ''4/5/23''\<rparr>)"
    by (rule g [OF a b, THEN conjunct2, THEN conjunct1, THEN spec [where x = "''23''"],
        THEN mp, OF conjI [OF c2 v2], THEN conjunct2, THEN spec])
  have 4: "handleBlur indiaEnv ''4/5/2025'' (blankForm\<lparr>inputValue := ''4/5/2025''\<rparr>) =
      Inr \<lparr>fieldValue = Some ''2025-04-04T18:30:00.000Z'', fieldError = None,
           fieldTouched = True, inputValue = [], isFocused = False, isValidating = True\<rparr>"
    unfolding g [OF a b, THEN conjunct2, THEN conjunct2, THEN conjunct1,
        THEN spec [where x = "''2025''"], THEN mp, OF conjI [OF c4 v4], THEN conjunct1] n
    by (simp add: indiaEnv_def blankForm_def d25 iso_2025_04_04)
  have 5: "handleBlur indiaEnv ''13/5/2025'' (blankForm\<lparr>inputValue := ''13/5/2025''\<rparr>) =
      Inr \<lparr>fieldValue = None, fieldError = Some ''Invalid date format'',
           fieldTouched = True, inputValue = ''13/5/2025'', isFocused = False,
           isValidating = True\<rparr>"
    unfolding g [OF a' b, THEN conjunct2, THEN conjunct2, THEN conjunct1,
        THEN spec [where x = "''2025''"], THEN mp, OF conjI [OF c4 v5], THEN conjunct1] n
    by (simp add: blankForm_def)
  have 6: "handleBlur (indiaEnv\<lparr>localeParse := (\<lambda>v. Some 0)\<rparr>) ''4/5/123''
        (blankForm\<lparr>inputValue := ''4/5/123''\<rparr>) =
      Inr \<lparr>fieldValue = Some ''1970-01-01T00:00:00.000Z'', fieldError = None,
           fieldTouched = True, inputValue = [], isFocused = False, isValidating = True\<rparr>"
    unfolding g [OF a b, THEN conjunct2, THEN conjunct2, THEN conjunct2, THEN conjunct1,
        THEN spec [where x = "''123''"], THEN mp, OF conjI [OF c3 v3], THEN conjunct1] n
    by (simp add: indiaEnv_def blankForm_def iso_epoch)
  have ne: "trim ''next friday'' \<noteq> []" unfolding v6 by simp
  have ns: "parseShortcut indiaEnv (trim ''next friday'') = None"
    unfolding v6 by (simp add: parseShortcut_def shortcutMatch_def string_eval)
  have nn: "\<not> reNumericDate (trim ''next friday'')"
    unfolding v6 by (simp add: reNumericDate_def)
  have 7: "handleBlur indiaEnv ''next friday'' (blankForm\<lparr>inputValue := ''next friday''\<rparr>) =
      Inr \<lparr>fieldValue = None, fieldError = Some ''Invalid date format'',
           fieldTouched = True, inputValue = ''next friday'', isFocused = False,
           isValidating = True\<rparr>"
    unfolding g [OF a b, THEN conjunct2, THEN conjunct2, THEN conjunct2, THEN conjunct2,
        THEN mp, OF conjI [OF ne conjI [OF ns nn]]] v6
    by (simp add: indiaEnv_def blankForm_def)
  from 1 2 3 4 5 6 7 show ?thesis by (intro conjI)
qed

text \<open>
  The claim as stated fails twice. \<open>13/5/123\<close> matches none of the three forms, so the
  grammar of the locale should be tried; in a day-first locale (\<open>dd/MM/yyyy\<close>, as
  \<open>en-GB\<close>) that grammar reads it as 13 May 123, but the range check has already taken
  13 for a month and the handler reports the format error. \<open>1/1/0050\<close> has a
  four-digit year, which should be the year as given; the \<open>Date\<close> constructor reads 50
  as 1950, and the date stored is 1 January 1950 (local midnight in India, 18:30 UTC of
  the day before).
\<close>

lemma local_0123_05_13: "localDate 0 (- 58274294400000) = (123, 5, 13)"
  using localDate_of_fields [of "- 58274294400000" 0 123 4 13 0]
  by (simp add: calendar_eval)

lemma iso_1949_12_31:
  "toISOString (Some (- 631171800000)) = Some ''1949-12-31T18:30:00.000Z''"
  using toISOString_of_fields [of "- 631171800000" 1949 11 31 66600000]
  by (simp add: calendar_eval clock_eval)

lemma local_1950_01_01: "localDate 19800000 (- 631171800000) = (1950, 1, 1)"
  using localDate_of_fields [of "- 631171800000" 19800000 1950 0 1 0]
  by (simp add: calendar_eval)

lemma blur_13_5_123:
  "handleBlur dayFirstEnv ''13/5/123'' (blankForm\<lparr>inputValue := ''13/5/123''\<rparr>) =
     Inr \<lparr>fieldValue = None, fieldError = Some ''Invalid date format'',
          fieldTouched = True, inputValue = ''13/5/123'', isFocused = False,
          isValidating = True\<rparr>"
proof -
  have a: "digitRun 1 2 ''13''" and b: "digitRun 1 2 ''5''" and c: "digitRun 3 3 ''123''"
    by (simp_all add: string_eval)
  have v: "trim ''13/5/123'' = ''13'' @ ''/'' @ ''5'' @ ''/'' @ ''123''"
    by (simp add: string_eval)
  have n: "digitsValue ''13'' = 13" "digitsValue ''5'' = 5" by (simp_all add: string_eval)
  show ?thesis
    unfolding blur_month_day_year3 [OF a b c v] n
    by (simp add: invalidFormat_blurred blankForm_def)
qed

lemma blur_1_1_0050:
  "handleBlur indiaEnv ''1/1/0050'' (blankForm\<lparr>inputValue := ''1/1/0050''\<rparr>) =
     Inr \<lparr>fieldValue = Some ''1949-12-31T18:30:00.000Z'', fieldError = None,
          fieldTouched = True, inputValue = [], isFocused = False, isValidating = True\<rparr>"
proof -
  have a: "digitRun 1 2 ''1''" and c: "digitRun 4 4 ''0050''"
    by (simp_all add: string_eval)
  have v: "trim ''1/1/0050'' = ''1'' @ ''/'' @ ''1'' @ ''/'' @ ''0050''"
    by (simp add: string_eval)
  have n: "digitsValue ''1'' = 1" "digitsValue ''0050'' = 50" by (simp_all add: string_eval)
  have d: "newDateLocal 19800000 (Some 50) (Some 0) (Some 1) = Some (- 631171800000)"
    by (simp add: newDateLocal_def MakeFullYear_def TimeClip_def calendar_eval)
  show ?thesis
    unfolding blur_month_day_year4 [OF a a c v] n
    by (simp add: indiaEnv_def blankForm_def blurred_def commitParsed_def storeDate_def d
        iso_1949_12_31)
qed

theorem typed_text_outside_the_stated_order:
  "\<not> reMonthDay ''13/5/123'' \<and> \<not> reMonthDayYear2 ''13/5/123''
   \<and> \<not> reMonthDayYear4 ''13/5/123''
   \<and> localeParse dayFirstEnv ''13/5/123'' = Some (- 58274294400000)
   \<and> localDate 0 (- 58274294400000) = (123, 5, 13)
   \<and> handleBlur dayFirstEnv ''13/5/123'' (blankForm\<lparr>inputValue := ''13/5/123''\<rparr>) =
       Inr \<lparr>fieldValue = None, fieldError = Some ''Invalid date format'',
            fieldTouched = True, inputValue = ''13/5/123'', isFocused = False,
            isValidating = True\<rparr>
   \<and> reMonthDayYear4 ''1/1/0050''
   \<and> handleBlur indiaEnv ''1/1/0050'' (blankForm\<lparr>inputValue := ''1/1/0050''\<rparr>) =
       Inr \<lparr>fieldValue = Some ''1949-12-31T18:30:00.000Z'', fieldError = None,
            fieldTouched = True, inputValue = [], isFocused = False, isValidating = True\<rparr>
   \<and> localDate 19800000 (- 631171800000) = (1950, 1, 1)"
proof -
  have p: "\<not> reMonthDay ''13/5/123''" "\<not> reMonthDayYear2 ''13/5/123''"
    "\<not> reMonthDayYear4 ''13/5/123''" "reMonthDayYear4 ''1/1/0050''"
    by (simp_all add: reMonthDay_def reMonthDayYear2_def reMonthDayYear4_def string_eval)
  have l: "localeParse dayFirstEnv ''13/5/123'' = Some (- 58274294400000)"
    by (simp add: dayFirstEnv_def)
  from p l local_0123_05_13 blur_13_5_123 blur_1_1_0050 local_1950_01_01
  show ?thesis by (intro conjI)
qed

section \<open>A failed commit\<close>

text \<open>
  When the handler returns. A typed date of the form month/day, alone or followed by a
  year of two to four digits, whose month is outside 1..12 or whose day is outside 1..31
  sets the error \<open>Invalid date format\<close> and stores nothing.
\<close>

lemma blur_out_of_range:
  assumes a: "digitRun 1 2 a" and b: "digitRun 1 2 b"
    and y: "ytail = [] \<or> (\<exists>c. ytail = ''/'' @ c \<and> digitRun 2 4 c)"
    and v: "trim raw = a @ ''/'' @ b @ ytail"
    and bad: "digitsValue a < 1 \<or> 12 < digitsValue a \<or> digitsValue b < 1 \<or> 31 < digitsValue b"
  shows "handleBlur e raw s =
           Inr (s\<lparr>isFocused := False, fieldTouched := True, isValidating := True,
                  fieldError := Some ''Invalid date format''\<rparr>)"
proof -
  from y consider "ytail = []" | c where "ytail = ''/'' @ c" "digitRun 2 4 c"
    by blast
  then have "handleBlur e raw s = Inr (invalidFormat (blurred s))"
  proof cases
    case 1
    then have "trim raw = a @ ''/'' @ b" using v by simp
    from blur_month_day [OF a b this] bad show ?thesis by simp
  next
    case 2
    let ?v = "a @ CHR ''/'' # b @ CHR ''/'' # c"
    have v': "trim raw = ?v" using v 2(1) by simp
    have sl: "CHR ''/'' \<in> set ?v" by simp
    have c0: "(0::nat) < 2" by simp
    note p = mdy_parts [OF a b 2(2) c0]
    have "rangeRejected ?v"
      using bad 2(2) by (simp add: rangeRejected_def outOfRange_def p)
    then show ?thesis unfolding handleBlur_typed [OF v' sl] by simp
  qed
  then show ?thesis by (simp only: invalidFormat_blurred)
qed

lemma storeDate_no_error:
  "storeDate e d s = Inr s' \<Longrightarrow> fieldError s' = None"
  by (auto simp: storeDate_def split: option.splits)

lemma blur_error_only_after_failure:
  assumes r: "handleBlur e raw s = Inr s'" and err: "truthy (fieldError s')"
  shows "trim raw \<noteq> [] \<and> parseShortcut e (trim raw) = None
         \<and> (rangeRejected (trim raw) \<or> typedDate e (trim raw) = None)"
proof -
  have ne: "fieldError s' \<noteq> None" using err by (auto simp: truthy_def split: option.splits)
  have v: "trim raw \<noteq> []"
  proof
    assume "trim raw = []"
    then have "fieldError s' = None" using r by (auto simp: handleBlur_def Let_def)
    with ne show False by simp
  qed
  have ps: "parseShortcut e (trim raw) = None"
  proof (cases "parseShortcut e (trim raw)")
    case None
    then show ?thesis .
  next
    case (Some d)
    then have "storeDate e d (blurred s) = Inr s'"
      using r v by (simp add: handleBlur_def Let_def)
    then have "fieldError s' = None" by (rule storeDate_no_error)
    with ne show ?thesis by simp
  qed
  have "rangeRejected (trim raw) \<or> typedDate e (trim raw) = None"
  proof (rule ccontr)
    assume "\<not> (rangeRejected (trim raw) \<or> typedDate e (trim raw) = None)"
    then have "storeDate e (typedDate e (trim raw)) (blurred s) = Inr s'"
      using r v ps by (simp add: handleBlur_def Let_def commitParsed_def)
    then have "fieldError s' = None" by (rule storeDate_no_error)
    with ne show False by simp
  qed
  with v ps show ?thesis by simp
qed

lemma blur_failure:
  assumes "trim raw \<noteq> []" "parseShortcut e (trim raw) = None"
    and "rangeRejected (trim raw) \<or> typedDate e (trim raw) = None"
  shows "handleBlur e raw s =
           Inr (s\<lparr>isFocused := False, fieldTouched := True, isValidating := True,
                  fieldError := Some ''Invalid date format''\<rparr>)"
  using assms
  by (auto simp: handleBlur_def Let_def commitParsed_def invalidFormat_blurred)

lemma typing_shows_no_error:
  "\<not> errorState (handleInputChange typed s)"
  "fieldValue (handleInputChange typed s) = fieldValue s"
  "inputValue (handleInputChange typed s) = typed"
  by (auto simp: handleInputChange_def errorState_def truthy_def Let_def split: option.splits)

text \<open>
  When the validation run has ended. The blur started the run before the handler set the
  error, so the result of the validator replaces it: after a failed commit the form shows
  what its validator says about the value that is still stored, and \<open>Invalid date format\<close>
  only if the validator happens to say that.
\<close>

lemma validation_replaces_error:
  "validationSettled e
     (s\<lparr>isFocused := False, fieldTouched := True, isValidating := True, fieldError := x\<rparr>) =
   s\<lparr>isFocused := False, fieldTouched := True, isValidating := False,
     fieldError := validate e (fieldValue s)\<rparr>"
  by (simp add: validationSettled_def)

lemma handleBlur_starts_validation:
  assumes "handleBlur e raw s = Inr s'"
  shows "isValidating s'"
  using assms
  by (auto simp: handleBlur_def Let_def storeDate_def commitParsed_def invalidFormat_def
      blurred_def split: option.splits if_splits)

lemma afterBlur_error:
  assumes "afterBlur e raw s = Inr s''"
  shows "fieldError s'' = validate e (fieldValue s'')" and "\<not> isValidating s''"
proof -
  from assms obtain s' where h: "handleBlur e raw s = Inr s'"
    and s'': "s'' = validationSettled e s'"
    by (auto simp: afterBlur_def split: sum.splits)
  have v: "isValidating s'" using h by (rule handleBlur_starts_validation)
  show "fieldError s'' = validate e (fieldValue s'')" unfolding s''
    using v by (simp add: validationSettled_def)
  show "\<not> isValidating s''" unfolding s''
    using v by (simp add: validationSettled_def)
qed

lemma failed_blur_settled:
  assumes "trim raw \<noteq> []" "parseShortcut e (trim raw) = None"
    and "rangeRejected (trim raw) \<or> typedDate e (trim raw) = None"
  shows "afterBlur e raw s =
           Inr (s\<lparr>isFocused := False, fieldTouched := True, isValidating := False,
                  fieldError := validate e (fieldValue s)\<rparr>)"
  unfolding afterBlur_def blur_failure [OF assms]
  by (simp add: validation_replaces_error)

lemma blur_13_45_2025:
  "handleBlur e ''13/45/2025'' s =
     Inr (s\<lparr>isFocused := False, fieldTouched := True, isValidating := True,
            fieldError := Some ''Invalid date format''\<rparr>)"
proof -
  have a: "digitRun 1 2 ''13''" and b: "digitRun 1 2 ''45''"
    by (simp_all add: string_eval)
  have c: "digitRun 2 4 ''2025''" by (simp add: string_eval)
  have y: "''/2025'' = [] \<or> (\<exists>c. ''/2025'' = ''/'' @ c \<and> digitRun 2 4 c)"
    using c by simp
  have v: "trim ''13/45/2025'' = ''13'' @ ''/'' @ ''45'' @ ''/2025''"
    by (simp add: string_eval)
  have bad: "digitsValue ''13'' < 1 \<or> 12 < digitsValue ''13''
      \<or> digitsValue ''45'' < 1 \<or> 31 < digitsValue ''45''"
    by (simp add: string_eval)
  show ?thesis by (rule blur_out_of_range [OF a b y v bad])
qed

text \<open>
  C6. Committing \<open>13/45/2025\<close> is meant to produce the error \<open>Invalid date format\<close>. The
  handler sets it and stores no date, but it has called \<open>helpers.setTouched(true)\<close>
  first, and the validation run which that call starts ends after the handler and
  replaces the error. In a form without a validator (\<open>App.tsx\<close>) no error is left and
  none is displayed; in the form of the test suites, whose validator requires a value,
  the message left is \<open>Date is required\<close>.
\<close>

theorem out_of_range_error_is_overwritten:
  "handleBlur indiaEnv ''13/45/2025'' (blankForm\<lparr>inputValue := ''13/45/2025''\<rparr>) =
     Inr \<lparr>fieldValue = None, fieldError = Some ''Invalid date format'',
          fieldTouched = True, inputValue = ''13/45/2025'', isFocused = False,
          isValidating = True\<rparr>
   \<and> afterBlur indiaEnv ''13/45/2025'' (blankForm\<lparr>inputValue := ''13/45/2025''\<rparr>) =
     Inr \<lparr>fieldValue = None, fieldError = None,
          fieldTouched = True, inputValue = ''13/45/2025'', isFocused = False,
          isValidating = False\<rparr>
   \<and> \<not> errorState
         \<lparr>fieldValue = None, fieldError = None,
          fieldTouched = True, inputValue = ''13/45/2025'', isFocused = False,
          isValidating = False\<rparr>
   \<and> afterBlur wrapperEnv ''13/45/2025'' (blankForm\<lparr>inputValue := ''13/45/2025''\<rparr>) =
     Inr \<lparr>fieldValue = None, fieldError = Some ''Date is required'',
          fieldTouched = True, inputValue = ''13/45/2025'', isFocused = False,
          isValidating = False\<rparr>"
proof -
  have 1: "handleBlur indiaEnv ''13/45/2025'' (blankForm\<lparr>inputValue := ''13/45/2025''\<rparr>) =
      Inr \<lparr>fieldValue = None, fieldError = Some ''Invalid date format'',
           fieldTouched = True, inputValue = ''13/45/2025'', isFocused = False,
           isValidating = True\<rparr>"
    unfolding blur_13_45_2025 by (simp add: blankForm_def)
  have 2: "afterBlur indiaEnv ''13/45/2025'' (blankForm\<lparr>inputValue := ''13/45/2025''\<rparr>) =
      Inr \<lparr>fieldValue = None, fieldError = None,
           fieldTouched = True, inputValue = ''13/45/2025'', isFocused = False,
           isValidating = False\<rparr>"
    unfolding afterBlur_def blur_13_45_2025
    by (simp add: validationSettled_def blankForm_def indiaEnv_def)
  have 3: "\<not> errorState
      \<lparr>fieldValue = None, fieldError = None,
       fieldTouched = True, inputValue = ''13/45/2025'', isFocused = False,
       isValidating = False\<rparr>"
    by (simp add: errorState_def truthy_def)
  have 4: "afterBlur wrapperEnv ''13/45/2025'' (blankForm\<lparr>inputValue := ''13/45/2025''\<rparr>) =
      Inr \<lparr>fieldValue = None, fieldError = Some ''Date is required'',
           fieldTouched = True, inputValue = ''13/45/2025'', isFocused = False,
           isValidating = False\<rparr>"
    unfolding afterBlur_def blur_13_45_2025
    by (simp add: validationSettled_def blankForm_def wrapperEnv_def wrapperValidate_def)
  from 1 2 3 4 show ?thesis by (intro conjI)
qed

lemma blur_invalid_text:
  "handleBlur e ''invalid'' s =
     (case localeParse e ''invalid'' of
        None \<Rightarrow>
          Inr (s\<lparr>isFocused := False, fieldTouched := True, isValidating := True,
                 fieldError := Some ''Invalid date format''\<rparr>)
      | Some t \<Rightarrow>
          Inr (s\<lparr>isFocused := False, fieldTouched := True, isValidating := True,
                 fieldValue := toISOString (Some t), fieldError := None,
                 inputValue := localeFormat e (Some t)\<rparr>))"
proof -
  have t: "trim ''invalid'' = ''invalid''" by (simp add: string_eval)
  have v: "trim ''invalid'' \<noteq> []" unfolding t by simp
  have ps: "parseShortcut e (trim ''invalid'') = None"
    unfolding t by (simp add: parseShortcut_def shortcutMatch_def string_eval)
  have nn: "\<not> reNumericDate (trim ''invalid'')"
    unfolding t by (simp add: reNumericDate_def)
  show ?thesis
    unfolding blur_not_numeric [OF v ps nn] t by (rule commitParsed_outcome)
qed

text \<open>
  C8. A failed commit is meant to leave the stored value and the typed text as they were
  and to surface the format error. A form holds 6 September 2024 and the user has typed
  \<open>invalid\<close>. On blur the handler leaves value and text alone and sets the error; when
  the validation run that the blur started has ended, value and text are still
  unchanged, but the error is gone and nothing is displayed: the validator of the form
  has no complaint about the value that is still stored.
\<close>

theorem failed_commit_error_is_overwritten:
  "handleBlur wrapperEnv ''invalid''
     \<lparr>fieldValue = Some ''2024-09-06T00:00:00.000Z'', fieldError = None,
      fieldTouched = False, inputValue = ''invalid'', isFocused = True,
      isValidating = False\<rparr> =
   Inr \<lparr>fieldValue = Some ''2024-09-06T00:00:00.000Z'',
        fieldError = Some ''Invalid date format'',
        fieldTouched = True, inputValue = ''invalid'', isFocused = False,
        isValidating = True\<rparr>
   \<and> errorState
        \<lparr>fieldValue = Some ''2024-09-06T00:00:00.000Z'',
         fieldError = Some ''Invalid date format'',
         fieldTouched = True, inputValue = ''invalid'', isFocused = False,
         isValidating = True\<rparr>
   \<and> afterBlur wrapperEnv ''invalid''
       \<lparr>fieldValue = Some ''2024-09-06T00:00:00.000Z'', fieldError = None,
        fieldTouched = False, inputValue = ''invalid'', isFocused = True,
        isValidating = False\<rparr> =
     Inr \<lparr>fieldValue = Some ''2024-09-06T00:00:00.000Z'', fieldError = None,
          fieldTouched = True, inputValue = ''invalid'', isFocused = False,
          isValidating = False\<rparr>
   \<and> \<not> errorState
         \<lparr>fieldValue = Some ''2024-09-06T00:00:00.000Z'', fieldError = None,
          fieldTouched = True, inputValue = ''invalid'', isFocused = False,
          isValidating = False\<rparr>"
proof -
  have lp: "localeParse wrapperEnv ''invalid'' = None"
    by (simp add: wrapperEnv_def indiaEnv_def)
  have 1: "handleBlur wrapperEnv ''invalid''
       \<lparr>fieldValue = Some ''2024-09-06T00:00:00.000Z'', fieldError = None,
        fieldTouched = False, inputValue = ''invalid'', isFocused = True,
        isValidating = False\<rparr> =
      Inr \<lparr>fieldValue = Some ''2024-09-06T00:00:00.000Z'',
           fieldError = Some ''Invalid date format'',
           fieldTouched = True, inputValue = ''invalid'', isFocused = False,
           isValidating = True\<rparr>"
    unfolding blur_invalid_text lp by simp
  have 2: "errorState
       \<lparr>fieldValue = Some ''2024-09-06T00:00:00.000Z'',
        fieldError = Some ''Invalid date format'',
        fieldTouched = True, inputValue = ''invalid'', isFocused = False,
        isValidating = True\<rparr>"
    by (simp add: errorState_def truthy_def)
  have 3: "afterBlur wrapperEnv ''invalid''
       \<lparr>fieldValue = Some ''2024-09-06T00:00:00.000Z'', fieldError = None,
        fieldTouched = False, inputValue = ''invalid'', isFocused = True,
        isValidating = False\<rparr> =
      Inr \<lparr>fieldValue = Some ''2024-09-06T00:00:00.000Z'', fieldError = None,
           fieldTouched = True, inputValue = ''invalid'', isFocused = False,
           isValidating = False\<rparr>"
    unfolding afterBlur_def blur_invalid_text lp
    by (simp add: validationSettled_def wrapperEnv_def wrapperValidate_def)
  have 4: "\<not> errorState
       \<lparr>fieldValue = Some ''2024-09-06T00:00:00.000Z'', fieldError = None,
        fieldTouched = True, inputValue = ''invalid'', isFocused = False,
        isValidating = False\<rparr>"
    by (simp add: errorState_def truthy_def)
  from 1 2 3 4 show ?thesis by (intro conjI)
qed

lemma blur_typed_date_in_india:
  "handleBlur indiaEnv ''07/08/2025'' blankForm =
     Inr \<lparr>fieldValue = Some ''2025-07-07T18:30:00.000Z'', fieldError = None,
          fieldTouched = True, inputValue = [], isFocused = False,
          isValidating = True\<rparr>"
proof -
  have a: "digitRun 1 2 ''07''" and b: "digitRun 1 2 ''08''" and c: "digitRun 4 4 ''2025''"
    by (simp_all add: string_eval)
  have v: "trim ''07/08/2025'' = ''07'' @ ''/'' @ ''08'' @ ''/'' @ ''2025''"
    by (simp add: string_eval)
  have d: "newDateLocal 19800000 (Some 2025) (Some 6) (Some 8) = Some 1751913000000"
    by (simp add: newDateLocal_def MakeFullYear_def TimeClip_def calendar_eval)
  show ?thesis
    unfolding blur_month_day_year4 [OF a b c v]
    by (simp add: string_eval indiaEnv_def blankForm_def blurred_def commitParsed_def
        storeDate_def d iso_2025_07_07)
qed

lemma blur_shortcut_d:
  "handleBlur indiaEnv ''d'' blankForm =
     Inr \<lparr>fieldValue = Some ''2025-01-15T10:30:00.000Z'', fieldError = None,
          fieldTouched = True, inputValue = [], isFocused = False,
          isValidating = True\<rparr>"
proof -
  have now: "\<bar>nowMs indiaEnv\<bar> \<le> 8640000000000000" by (simp add: indiaEnv_def)
  have t: "trim ''d'' = ''d''" by (simp add: string_eval)
  have l: "toLowerCase (trim ''d'') \<in> {''d'', ''m'', ''y''}" by (simp add: string_eval)
  have p: "parseShortcut indiaEnv ''d'' = Some (Some 1736937000000)"
    using parseShortcut_bare [OF now l] by (simp add: indiaEnv_def)
  have "handleBlur indiaEnv ''d'' blankForm =
      storeDate indiaEnv (Some 1736937000000) (blurred blankForm)"
    by (simp add: handleBlur_def t p Let_def)
  also have "\<dots> =
      Inr \<lparr>fieldValue = Some ''2025-01-15T10:30:00.000Z'', fieldError = None,
           fieldTouched = True, inputValue = [], isFocused = False,
           isValidating = True\<rparr>"
    by (simp add: storeDate_def iso_2025_01_15 blurred_def blankForm_def indiaEnv_def)
  finally show ?thesis .
qed

text \<open>
  C3. Every stored string is meant to be \<open>YYYY-MM-DDT00:00:00.000Z\<close> for the committed
  day. \<open>handleBlur\<close> of \<open>date-picker-component.tsx\<close> stores \<open>parsed.toISOString()\<close>
  and \<open>shortcutDate.toISOString()\<close> without going through \<open>dateToISOString\<close>: in
  India, typing \<open>07/08/2025\<close> stores local midnight, which is 18:30 UTC on 7 July, and
  the shortcut \<open>d\<close> stores the current time of day.
\<close>

theorem blur_stores_nonzero_time_of_day:
  "handleBlur indiaEnv ''07/08/2025'' blankForm =
     Inr \<lparr>fieldValue = Some ''2025-07-07T18:30:00.000Z'', fieldError = None,
          fieldTouched = True, inputValue = [], isFocused = False,
          isValidating = True\<rparr>
   \<and> handleBlur indiaEnv ''d'' blankForm =
     Inr \<lparr>fieldValue = Some ''2025-01-15T10:30:00.000Z'', fieldError = None,
          fieldTouched = True, inputValue = [], isFocused = False,
          isValidating = True\<rparr>"
  using blur_typed_date_in_india blur_shortcut_d by (rule conjI)

section \<open>Decoding stored strings\<close>

lemma noon_in_range:
  "DateUTC 2025 6 8 12 0 0 0 = Some 1751976000000"
  by (simp add: DateUTC_def MakeFullYear_def TimeClip_def calendar_eval)

lemma decode_api_example:
  "parseDateFromISO ''2025-07-08T18:30:00Z'' = Some (Some 1751976000000)"
  by (simp add: parseDateFromISO_def isoDateMatch_def isDigit_def toNumber_def
      digitsValue_def digitVal_def utcNoon_def noon_in_range)

lemma api_example_at_utc_plus_12:
  "localDate 43200000 1751976000000 = (2025, 7, 9)"
  using localDate_of_fields [of 1751976000000 43200000 2025 6 9 0]
  by (simp add: calendar_eval)

lemma api_example_in_india:
  "localDate 19800000 1751976000000 = (2025, 7, 8)"
  using localDate_of_fields [of 1751976000000 19800000 2025 6 8 63000000]
  by (simp add: calendar_eval)

lemma iso_2025_07_09: "toISOString (Some 1752019200000) = Some ''2025-07-09T00:00:00.000Z''"
  using toISOString_of_fields [of 1752019200000 2025 6 9 0]
  by (simp add: calendar_eval clock_eval)

lemma api_example_reencoded_at_utc_plus_12:
  "dateToISOString 43200000 (Some 1751976000000) = Some ''2025-07-09T00:00:00.000Z''"
proof -
  have f: "getFullYear 43200000 (Some 1751976000000) = Some 2025"
    "getMonth 43200000 (Some 1751976000000) = Some 6"
    "getDate 43200000 (Some 1751976000000) = Some 9"
    using api_example_at_utc_plus_12
    by (simp_all add: localDate_def getFullYear_def getMonth_def getDate_def)
  have u: "DateUTC 2025 6 9 0 0 0 0 = Some 1752019200000"
    by (simp add: DateUTC_def MakeFullYear_def TimeClip_def calendar_eval)
  show ?thesis by (simp add: dateToISOString_def f u iso_2025_07_09)
qed

text \<open>
  C2. The decoder is meant to give the calendar date of the \<open>YYYY-MM-DD\<close> prefix to a
  consumer in any time zone, so that \<open>2025-07-08T18:30:00Z\<close> is 8 July and never 9 July.
  \<open>parseDateFromISO\<close> returns noon UTC of 8 July. Twelve hours ahead of UTC that instant
  is midnight of 9 July: the local calendar date, which the picker displays and
  \<open>dateToISOString\<close> reads, is 9 July, and encoding the decoded date stores 9 July.
\<close>

theorem decode_shifts_day_at_utc_plus_12:
  "parseDateFromISO ''2025-07-08T18:30:00Z'' = Some (Some 1751976000000)
   \<and> localDate 43200000 1751976000000 = (2025, 7, 9)
   \<and> dateToISOString 43200000 (Some 1751976000000) = Some ''2025-07-09T00:00:00.000Z''"
  using decode_api_example api_example_at_utc_plus_12 api_example_reencoded_at_utc_plus_12
  by (intro conjI)

lemma month_13_normalised:
  "DateUTC 2025 12 45 12 0 0 0 = Some 1771070400000"
  by (simp add: DateUTC_def MakeFullYear_def TimeClip_def calendar_eval)

lemma decode_month_13:
  "parseDateFromISO ''2025-13-45T00:00:00Z'' = Some (Some 1771070400000)"
  by (simp add: parseDateFromISO_def isoDateMatch_def isDigit_def toNumber_def
      digitsValue_def digitVal_def utcNoon_def month_13_normalised)

lemma month_13_is_february:
  "toISOString (Some 1771070400000) = Some ''2026-02-14T12:00:00.000Z''"
  using toISOString_of_fields [of 1771070400000 2026 1 14 43200000]
  by (simp add: calendar_eval clock_eval)

text \<open>
  C7. The decoder is meant to return \<open>null\<close> for a prefix whose month is outside 1..12
  or whose day is outside 1..31. \<open>parseDateFromISO\<close> has no range check (the localized
  branch of \<open>parseDateString\<close> has one): \<open>2025-13-45T00:00:00Z\<close> decodes to a
  \<open>Date\<close>, noon UTC of 14 February 2026.
\<close>

theorem decode_normalises_month_13:
  "parseDateFromISO ''2025-13-45T00:00:00Z'' = Some (Some 1771070400000)
   \<and> toISOString (Some 1771070400000) = Some ''2026-02-14T12:00:00.000Z''"
  using decode_month_13 month_13_is_february by (rule conjI)

section \<open>The round trip through the canonical string\<close>

text \<open>
  Where the round trip holds. Let a \<open>Date\<close> show the calendar date \<open>(y, m, d)\<close> in the
  encoder's time zone, with \<open>100 \<le> y \<le> 9999\<close>. Then \<open>dateToISOString\<close> prints
  \<open>YYYY-MM-DDT00:00:00.000Z\<close> for that date, \<open>parseDateFromISO\<close> decodes the string to
  noon UTC of the same day, and a consumer whose zone is less than twelve hours from UTC
  reads \<open>(y, m, d)\<close> from the result. (The calendar date a \<open>Date\<close> shows is always valid,
  lemma \<open>validDate_localDate\<close>, and each valid date is shown by the \<open>Date\<close> at its local
  midnight.)
\<close>

lemma roundtrip_within_twelve_hours:
  assumes ld: "localDate off t = (y, m, d)"
    and y: "100 \<le> y" "y \<le> 9999"
    and off': "- 43200000 \<le> off'" "off' < 43200000"
  shows "\<exists>iso t'. dateToISOString off (Some t) = Some iso
           \<and> iso = pad4 y @ ''-'' @ pad2 m @ ''-'' @ pad2 d @ ''T00:00:00.000Z''
           \<and> parseDateFromISO iso = Some (Some t')
           \<and> t' = MakeDate (MakeDay y (m - 1) d) (MakeTime 12 0 0 0)
           \<and> localDate off' t' = (y, m, d)"
proof -
  have fy: "YearFromTime (t + off) = y" and fm: "MonthFromTime (t + off) = m - 1"
    and fd: "DateFromTime (t + off) = d"
    using ld by (simp_all add: localDate_def)
  from fields_valid [of "t + off"]
  have m: "0 \<le> m - 1" "m - 1 < 12" and d: "1 \<le> d" "d \<le> daysInMonth y (m - 1)"
    unfolding fy fm fd by simp_all
  have dim: "daysInMonth y (m - 1) \<le> 31"
    using leapDays_cases [of y] by (auto simp: daysInMonth_def)
  define iso where "iso = pad4 y @ ''-'' @ pad2 m @ ''-'' @ pad2 d @ ''T00:00:00.000Z''"
  define t' where "t' = MakeDate (MakeDay y (m - 1) d) (MakeTime 12 0 0 0)"
  have enc: "dateToISOString off (Some t) = Some iso"
    unfolding iso_def by (rule encode_local_date [OF ld y])
  have noon: "0 \<le> MakeTime 12 0 0 0" "MakeTime 12 0 0 0 < msPerDay"
    by (simp_all add: MakeTime_def msPerDay_def)
  have "parseDateFromISO iso = Some (DateUTC y (m - 1) d 12 0 0 0)"
    unfolding iso_def using decode_formatted [of y m d "''T00:00:00.000Z''"] y m d dim
    by simp
  also have "DateUTC y (m - 1) d 12 0 0 0 = Some t'"
    unfolding t'_def by (rule DateUTC_in_range [OF y m d noon])
  finally have dec: "parseDateFromISO iso = Some (Some t')" .
  have "localDate off' t' = (y, m - 1 + 1, d)"
    unfolding t'_def by (rule noon_local_date [OF m d off'])
  then have loc: "localDate off' t' = (y, m, d)" by simp
  from enc dec loc show ?thesis unfolding iso_def t'_def by blast
qed

lemma local_2025_07_08: "localDate 19800000 1751913000000 = (2025, 7, 8)"
  using localDate_of_fields [of 1751913000000 19800000 2025 6 8 0]
  by (simp add: calendar_eval)

lemma roundtrip_in_india:
  "localDate 19800000 1751913000000 = (2025, 7, 8)
   \<and> dateToISOString 19800000 (Some 1751913000000) = Some ''2025-07-08T00:00:00.000Z''
   \<and> parseDateFromISO ''2025-07-08T00:00:00.000Z'' = Some (Some 1751976000000)
   \<and> localDate 19800000 1751976000000 = (2025, 7, 8)"
proof -
  have y: "(100::int) \<le> 2025" "(2025::int) \<le> 9999" by simp_all
  have o: "- 43200000 \<le> (19800000::int)" "(19800000::int) < 43200000" by simp_all
  have iso: "pad4 2025 @ ''-'' @ pad2 7 @ ''-'' @ pad2 8 @ ''T00:00:00.000Z''
      = ''2025-07-08T00:00:00.000Z''"
    by (simp add: clock_eval)
  have t': "MakeDate (MakeDay 2025 (7 - 1) 8) (MakeTime 12 0 0 0) = 1751976000000"
    by (simp add: calendar_eval)
  from roundtrip_within_twelve_hours [OF local_2025_07_08 y o]
  show ?thesis unfolding iso t' using local_2025_07_08 by simp
qed

lemma date_is_shown_at_local_midnight:
  assumes "validDate (y, m, d)"
  shows "localDate off (MakeDate (MakeDay y (m - 1) d) 0 - off) = (y, m, d)"
proof -
  have v: "0 \<le> m - 1" "m - 1 < 12" "1 \<le> d" "d \<le> daysInMonth y (m - 1)"
    using assms by (simp_all add: validDate_def)
  have z: "(0::int) \<le> 0" "(0::int) < msPerDay" by (simp_all add: msPerDay_def)
  have "localDate off (MakeDate (MakeDay y (m - 1) d) 0 - off) = (y, m - 1 + 1, d)"
    by (rule localDate_of_fields [OF _ v z]) simp
  then show ?thesis by simp
qed

lemma local_10000_01_01: "localDate 0 253402300800000 = (10000, 1, 1)"
  using localDate_of_fields [of 253402300800000 0 10000 0 1 0]
  by (simp add: calendar_eval)

lemma iso_10000_01_01:
  "toISOString (Some 253402300800000) = Some ''+010000-01-01T00:00:00.000Z''"
  using toISOString_of_fields [of 253402300800000 10000 0 1 0]
  by (simp add: calendar_eval clock_eval)

lemma encode_10000_01_01:
  "dateToISOString 0 (Some 253402300800000) = Some ''+010000-01-01T00:00:00.000Z''"
proof -
  have f: "getFullYear 0 (Some 253402300800000) = Some 10000"
    "getMonth 0 (Some 253402300800000) = Some 0"
    "getDate 0 (Some 253402300800000) = Some 1"
    using local_10000_01_01
    by (simp_all add: localDate_def getFullYear_def getMonth_def getDate_def)
  have u: "DateUTC 10000 0 1 0 0 0 0 = Some 253402300800000"
    by (simp add: DateUTC_def MakeFullYear_def TimeClip_def calendar_eval)
  show ?thesis by (simp add: dateToISOString_def f u iso_10000_01_01)
qed

lemma decode_10000_01_01: "parseDateFromISO ''+010000-01-01T00:00:00.000Z'' = None"
  by (simp add: parseDateFromISO_def isoDateMatch_def isDigit_def)

text \<open>
  Beyond four-digit years: 1 January 10000 is a valid calendar date and a time value
  within the range of \<open>Date\<close>. Its canonical string starts with \<open>+010000\<close>, which the
  decoder's four-digit pattern does not match, so decoding gives \<open>null\<close>.
\<close>

lemma roundtrip_fails_in_year_10000:
  "validDate (10000, 1, 1)
   \<and> localDate 0 253402300800000 = (10000, 1, 1)
   \<and> dateToISOString 0 (Some 253402300800000) = Some ''+010000-01-01T00:00:00.000Z''
   \<and> parseDateFromISO ''+010000-01-01T00:00:00.000Z'' = None"
proof -
  have "validDate (10000, 1, 1)" by (simp add: validDate_def daysInMonth_def)
  with local_10000_01_01 encode_10000_01_01 decode_10000_01_01 show ?thesis by simp
qed


text \<open>
  Twelve hours ahead of UTC.
\<close>

lemma local_midnight_at_utc_plus_12: "localDate 43200000 1751889600000 = (2025, 7, 8)"
  using localDate_of_fields [of 1751889600000 43200000 2025 6 8 0]
  by (simp add: calendar_eval)

lemma iso_2025_07_08: "toISOString (Some 1751932800000) = Some ''2025-07-08T00:00:00.000Z''"
  using toISOString_of_fields [of 1751932800000 2025 6 8 0]
  by (simp add: calendar_eval clock_eval)

lemma encode_at_utc_plus_12:
  "dateToISOString 43200000 (Some 1751889600000) = Some ''2025-07-08T00:00:00.000Z''"
proof -
  have f: "getFullYear 43200000 (Some 1751889600000) = Some 2025"
    "getMonth 43200000 (Some 1751889600000) = Some 6"
    "getDate 43200000 (Some 1751889600000) = Some 8"
    using local_midnight_at_utc_plus_12
    by (simp_all add: localDate_def getFullYear_def getMonth_def getDate_def)
  have u: "DateUTC 2025 6 8 0 0 0 0 = Some 1751932800000"
    by (simp add: DateUTC_def MakeFullYear_def TimeClip_def calendar_eval)
  show ?thesis by (simp add: dateToISOString_def f u iso_2025_07_08)
qed

lemma decode_2025_07_08:
  "parseDateFromISO ''2025-07-08T00:00:00.000Z'' = Some (Some 1751976000000)"
  by (simp add: parseDateFromISO_def isoDateMatch_def isDigit_def toNumber_def
      digitsValue_def digitVal_def utcNoon_def noon_in_range)

text \<open>
  C1. Encoding a calendar date and decoding the result is meant to give the date back,
  for every valid date. Where local time is twelve hours ahead of UTC, the \<open>Date\<close> at
  local midnight of 8 July 2025 shows the valid date 8 July 2025, and \<open>dateToISOString\<close>
  prints \<open>2025-07-08T00:00:00.000Z\<close> for it. \<open>parseDateFromISO\<close> decodes that string
  to noon UTC of 8 July, which there is midnight of 9 July: the decoded \<open>Date\<close> shows
  9 July 2025.
\<close>

theorem roundtrip_shifts_day_at_utc_plus_12:
  "validDate (2025, 7, 8)
   \<and> localDate 43200000 1751889600000 = (2025, 7, 8)
   \<and> dateToISOString 43200000 (Some 1751889600000) = Some ''2025-07-08T00:00:00.000Z''
   \<and> parseDateFromISO ''2025-07-08T00:00:00.000Z'' = Some (Some 1751976000000)
   \<and> localDate 43200000 1751976000000 = (2025, 7, 9)"
proof -
  have v: "validDate (2025, 7, 8)" by (simp add: validDate_def daysInMonth_def)
  from v local_midnight_at_utc_plus_12 encode_at_utc_plus_12 decode_2025_07_08
    api_example_at_utc_plus_12
  show ?thesis by (intro conjI)
qed

section \<open>Localized strings in \<open>parseDateString\<close>\<close>

lemma isDigit_digitVal: "isDigit c \<Longrightarrow> 0 \<le> digitVal c \<and> digitVal c \<le> 9"
  by (auto simp: isDigit_def digitVal_def)

lemma digitsValue_four:
  assumes "digitRun 4 4 c"
  shows "0 \<le> digitsValue c \<and> digitsValue c \<le> 9999"
proof -
  have l: "length c = 4" using assms by (simp add: digitRun_def)
  then obtain c1 c2 c3 c4 where c: "c = [c1, c2, c3, c4]"
    by (auto simp: length_Suc_conv numeral_eq_Suc)
  have d: "isDigit c1" "isDigit c2" "isDigit c3" "isDigit c4"
    using assms by (simp_all add: digitRun_def c)
  from d [THEN isDigit_digitVal] show ?thesis
    by (simp add: digitsValue_def c)
qed

lemma slash_not_digit: "\<not> isDigit CHR ''/''"
  by (simp add: isDigit_def)

lemma isoDateMatch_slash:
  assumes "digitRun 1 2 a"
  shows "isoDateMatch (a @ CHR ''/'' # r) = None"
proof -
  have "length a = 1 \<or> length a = 2" using assms by (auto simp: digitRun_def)
  then consider a1 where "a = [a1]" | a1 a2 where "a = [a1, a2]"
    by (auto simp: length_Suc_conv numeral_eq_Suc)
  then show ?thesis
  proof cases
    case 1
    then show ?thesis by (simp add: isoDateMatch_def Let_def slash_not_digit)
  next
    case 2
    then show ?thesis by (simp add: isoDateMatch_def Let_def slash_not_digit)
  qed
qed

lemma parseDateString_localized:
  assumes a: "digitRun 1 2 a" and b: "digitRun 1 2 b" and c: "digitRun 4 4 c"
  shows "parseDateString (a @ ''/'' @ b @ ''/'' @ c) =
           (if digitsValue a < 1 \<or> 12 < digitsValue a \<or> digitsValue b < 1 \<or> 31 < digitsValue b
            then None
            else Some (DateUTC (digitsValue c) (digitsValue a - 1) (digitsValue b) 12 0 0 0))"
proof -
  let ?v = "a @ CHR ''/'' # b @ CHR ''/'' # c"
  have ne: "?v \<noteq> []" by simp
  have iso: "isoDateMatch ?v = None" by (rule isoDateMatch_slash [OF a])
  have lm: "localizedMatch ?v = Some (a, b, c)"
    using a b c by (simp add: localizedMatch_def split3 [OF a b c])
  show ?thesis
    by (simp add: parseDateString_def ne iso lm Let_def toNumber_digits [OF a]
        toNumber_digits [OF b] toNumber_digits [OF c] utcNoon_def)
qed

text \<open>
  C10, amended. A string \<open>M/D/YYYY\<close> (one or two digits for month and day, four for the
  year) whose month is outside 1..12 or whose day is outside 1..31 decodes to \<open>null\<close>.
  When the month is in 1..12, the day exists in that month and the year is at least 0100,
  it decodes to noon UTC of that calendar date.
\<close>

theorem localized_string_decodes:
  assumes a: "digitRun 1 2 a" and b: "digitRun 1 2 b" and c: "digitRun 4 4 c"
  shows "(1 \<le> digitsValue a \<and> digitsValue a \<le> 12 \<and> 1 \<le> digitsValue b
            \<and> digitsValue b \<le> daysInMonth (digitsValue c) (digitsValue a - 1)
            \<and> 100 \<le> digitsValue c \<longrightarrow>
          parseDateString (a @ ''/'' @ b @ ''/'' @ c) =
            Some (Some (MakeDate (MakeDay (digitsValue c) (digitsValue a - 1) (digitsValue b))
                                 (MakeTime 12 0 0 0)))
          \<and> localDate 0 (MakeDate (MakeDay (digitsValue c) (digitsValue a - 1) (digitsValue b))
                                   (MakeTime 12 0 0 0))
              = (digitsValue c, digitsValue a, digitsValue b))
       \<and> (digitsValue a < 1 \<or> 12 < digitsValue a \<or> digitsValue b < 1 \<or> 31 < digitsValue b
            \<longrightarrow> parseDateString (a @ ''/'' @ b @ ''/'' @ c) = None)"
proof (intro conjI impI)
  assume h: "1 \<le> digitsValue a \<and> digitsValue a \<le> 12 \<and> 1 \<le> digitsValue b
      \<and> digitsValue b \<le> daysInMonth (digitsValue c) (digitsValue a - 1)
      \<and> 100 \<le> digitsValue c"
  define mo where "mo = digitsValue a"
  define da where "da = digitsValue b"
  define yr where "yr = digitsValue c"
  have m: "0 \<le> mo - 1" "mo - 1 < 12" and d: "1 \<le> da" "da \<le> daysInMonth yr (mo - 1)"
    and y: "100 \<le> yr" "yr \<le> 9999"
    using h digitsValue_four [OF c] by (simp_all add: mo_def da_def yr_def)
  have dim: "daysInMonth yr (mo - 1) \<le> 31"
    using leapDays_cases [of yr] by (auto simp: daysInMonth_def)
  have noon: "0 \<le> MakeTime 12 0 0 0" "MakeTime 12 0 0 0 < msPerDay"
    by (simp_all add: MakeTime_def msPerDay_def)
  have inr: "\<not> (mo < 1 \<or> 12 < mo \<or> da < 1 \<or> 31 < da)"
    using m d dim by simp
  have "parseDateString (a @ ''/'' @ b @ ''/'' @ c) = Some (DateUTC yr (mo - 1) da 12 0 0 0)"
    using inr unfolding parseDateString_localized [OF a b c] mo_def da_def yr_def by simp
  also have "DateUTC yr (mo - 1) da 12 0 0 0
      = Some (MakeDate (MakeDay yr (mo - 1) da) (MakeTime 12 0 0 0))"
    by (rule DateUTC_in_range [OF y m d noon])
  finally show "parseDateString (a @ ''/'' @ b @ ''/'' @ c) =
      Some (Some (MakeDate (MakeDay (digitsValue c) (digitsValue a - 1) (digitsValue b))
                           (MakeTime 12 0 0 0)))"
    unfolding mo_def da_def yr_def .
  have z: "- 43200000 \<le> (0::int)" "(0::int) < 43200000" by simp_all
  have "localDate 0 (MakeDate (MakeDay yr (mo - 1) da) (MakeTime 12 0 0 0))
      = (yr, mo - 1 + 1, da)"
    by (rule noon_local_date [OF m d z])
  then show "localDate 0 (MakeDate (MakeDay (digitsValue c) (digitsValue a - 1) (digitsValue b))
                                   (MakeTime 12 0 0 0))
      = (digitsValue c, digitsValue a, digitsValue b)"
    unfolding mo_def da_def yr_def by simp
next
  assume "digitsValue a < 1 \<or> 12 < digitsValue a \<or> digitsValue b < 1 \<or> 31 < digitsValue b"
  then show "parseDateString (a @ ''/'' @ b @ ''/'' @ c) = None"
    unfolding parseDateString_localized [OF a b c] by simp
qed

theorem localized_string_decodes_witness:
  "parseDateString ''11/25/2025'' = Some (Some 1764072000000)
   \<and> localDate 0 1764072000000 = (2025, 11, 25)
   \<and> parseDateString ''13/45/2025'' = None"
proof -
  have a: "digitRun 1 2 ''11''" and b: "digitRun 1 2 ''25''" and c: "digitRun 4 4 ''2025''"
    by (simp_all add: string_eval)
  have a': "digitRun 1 2 ''13''" and b': "digitRun 1 2 ''45''"
    by (simp_all add: string_eval)
  have v: "digitsValue ''11'' = 11" "digitsValue ''25'' = 25" "digitsValue ''2025'' = 2025"
    "digitsValue ''13'' = 13" "digitsValue ''45'' = 45"
    by (simp_all add: string_eval)
  have t: "MakeDate (MakeDay 2025 10 25) (MakeTime 12 0 0 0) = 1764072000000"
    by (simp add: calendar_eval)
  have dim: "daysInMonth 2025 10 = 30" by (simp add: daysInMonth_def)
  from localized_string_decodes [OF a b c]
  have 1: "parseDateString ''11/25/2025'' = Some (Some 1764072000000)
      \<and> localDate 0 1764072000000 = (2025, 11, 25)"
    unfolding v by (simp add: dim t)
  from localized_string_decodes [OF a' b' c]
  have 2: "parseDateString ''13/45/2025'' = None"
    unfolding v by simp
  from 1 2 show ?thesis by simp
qed

lemma feb_30_time: "DateUTC 2025 1 30 12 0 0 0 = Some 1740916800000"
  by (simp add: DateUTC_def MakeFullYear_def TimeClip_def calendar_eval)

lemma local_2025_03_02: "localDate 0 1740916800000 = (2025, 3, 2)"
  using localDate_of_fields [of 1740916800000 0 2025 2 2 43200000]
  by (simp add: calendar_eval)

text \<open>
  The claim as stated fails for \<open>2/30/2025\<close>: the month is in 1..12 and the day in
  1..31, but the date returned is 2 March 2025, not a 30 February.
\<close>

theorem localized_feb_30_is_march_2:
  "digitRun 1 2 ''2'' \<and> digitRun 1 2 ''30'' \<and> digitRun 4 4 ''2025''
   \<and> digitsValue ''2'' = 2 \<and> digitsValue ''30'' = 30
   \<and> parseDateString ''2/30/2025'' = Some (Some 1740916800000)
   \<and> localDate 0 1740916800000 = (2025, 3, 2)"
proof -
  have a: "digitRun 1 2 ''2''" and b: "digitRun 1 2 ''30''" and c: "digitRun 4 4 ''2025''"
    by (simp_all add: string_eval)
  have v: "digitsValue ''2'' = 2" "digitsValue ''30'' = 30" "digitsValue ''2025'' = 2025"
    by (simp_all add: string_eval)
  have "parseDateString (''2'' @ ''/'' @ ''30'' @ ''/'' @ ''2025'') = Some (Some 1740916800000)"
    unfolding parseDateString_localized [OF a b c] v by (simp add: feb_30_time)
  then have "parseDateString ''2/30/2025'' = Some (Some 1740916800000)" by simp
  with a b c v local_2025_03_02 show ?thesis by simp
qed

section \<open>Month navigation\<close>

lemma daysInMonth_ge: "28 \<le> daysInMonth y m"
  using leapDays_cases [of y] by (auto simp: daysInMonth_def)

lemma divmod12:
  fixes k :: int
  shows "0 \<le> k mod 12" and "k mod 12 < 12" and "12 * (k div 12) + k mod 12 = k"
  by simp_all

text \<open>
  C9. Stepping a valid calendar date by one month, forwards or backwards, gives a valid
  calendar date in the adjacent month (the count of months since year 0 moves by
  \<open>delta\<close>), with the day kept when the target month has it and otherwise set to the
  target month's last day. The function is total. The statement holds for every
  \<open>delta\<close>, in particular for \<open>1\<close> and \<open>- 1\<close>.
\<close>

theorem shiftMonth_clamps_day:
  assumes v: "validDate (y, m, d)"
  shows "\<exists>y' m' d'. shiftMonth (y, m, d) delta = (y', m', d')
           \<and> validDate (y', m', d')
           \<and> 12 * y' + m' = 12 * y + m + delta
           \<and> d' = min d (daysInMonth y' (m' - 1))"
proof -
  define k where "k = 12 * y + (m - 1) + delta"
  define y' where "y' = k div 12"
  define m' where "m' = k mod 12"
  define d' where "d' = min d (daysInMonth y' m')"
  have s: "shiftMonth (y, m, d) delta = (y', m' + 1, d')"
    by (simp add: shiftMonth_def Let_def k_def y'_def m'_def d'_def)
  have m0: "0 \<le> m'" and m12: "m' < 12" and km: "12 * y' + m' = k"
    unfolding m'_def y'_def by (rule divmod12)+
  have d1: "1 \<le> d" using v by (simp add: validDate_def)
  have "1 \<le> d'" and "d' \<le> daysInMonth y' m'"
    using d1 daysInMonth_ge [of y' m'] by (simp_all add: d'_def)
  then have valid: "validDate (y', m' + 1, d')"
    using m0 m12 by (simp add: validDate_def)
  have step: "12 * y' + (m' + 1) = 12 * y + m + delta"
    using km by (simp add: k_def)
  have day: "d' = min d (daysInMonth y' (m' + 1 - 1))"
    by (simp add: d'_def)
  from s valid step day show ?thesis by blast
qed

lemma february_length: "daysInMonth 2025 1 = 28" "daysInMonth 2024 1 = 29"
  by (simp_all add: daysInMonth_def leapDays_def DaysInYear_def)

lemma jan_31_plus_one_month: "shiftMonth (2025, 1, 31) 1 = (2025, 2, 28)"
  by (simp add: shiftMonth_def Let_def february_length)

lemma mar_31_minus_one_month: "shiftMonth (2025, 3, 31) (- 1) = (2025, 2, 28)"
  by (simp add: shiftMonth_def Let_def february_length)

lemma jan_31_plus_one_month_leap: "shiftMonth (2024, 1, 31) 1 = (2024, 2, 29)"
  by (simp add: shiftMonth_def Let_def february_length)

theorem shiftMonth_clamps_day_witness:
  "validDate (2025, 1, 31) \<and> shiftMonth (2025, 1, 31) 1 = (2025, 2, 28)
   \<and> validDate (2025, 2, 28)"
proof -
  have v: "validDate (2025, 1, 31)"
    by (simp add: validDate_def daysInMonth_def)
  from shiftMonth_clamps_day [OF v, of 1]
  have "validDate (shiftMonth (2025, 1, 31) 1)"
    by (elim exE conjE) (simp only:)
  then have "validDate (2025, 2, 28)" by (simp only: jan_31_plus_one_month)
  with v jan_31_plus_one_month show ?thesis by (intro conjI)
qed

end
